theory Spec2Isabelle
  imports Complex_Main "HOL-Library.Word"
begin

section \<open>Strings of the source language\<close>

text \<open>
  A string of the source is a sequence of UTF-16 code units; \<open>length\<close> counts code
  units, as the \<open>length\<close> property of the source does. \<open>js\<close> reads a literal of
  ASCII characters as such a string.
\<close>

type_synonym jsstring = "16 word list"

definition js :: "string \<Rightarrow> jsstring" where
  "js s = map (\<lambda>c. of_nat (of_char c)) s"

text \<open>
  The characters removed by \<open>String.prototype.trim\<close>: the white space and line
  terminator code points of the language definition.
\<close>

definition isWhiteSpace :: "16 word \<Rightarrow> bool" where
  "isWhiteSpace c \<longleftrightarrow>
     c = 0x09 \<or> c = 0x0A \<or> c = 0x0B \<or> c = 0x0C \<or> c = 0x0D \<or> c = 0x20 \<or>
     c = 0xA0 \<or> c = 0x1680 \<or> (0x2000 \<le> c \<and> c \<le> 0x200A) \<or>
     c = 0x2028 \<or> c = 0x2029 \<or> c = 0x202F \<or> c = 0x205F \<or> c = 0x3000 \<or>
     c = 0xFEFF"

definition trim :: "jsstring \<Rightarrow> jsstring" where
  "trim s = rev (dropWhile isWhiteSpace (rev (dropWhile isWhiteSpace s)))"

section \<open>textUtils: splitTextIntoChunks\<close>

text \<open>
  The character class of the separator pattern \<open>/([\<dots>]+)/\<close>: ideographic full stop,
  full stop, fullwidth and ASCII exclamation mark, fullwidth and ASCII question mark,
  line feed, carriage return.
\<close>

definition isDelim :: "16 word \<Rightarrow> bool" where
  "isDelim c \<longleftrightarrow>
     c = 0x3002 \<or> c = 0x2E \<or> c = 0xFF01 \<or> c = 0x21 \<or> c = 0xFF1F \<or> c = 0x3F \<or>
     c = 0x0A \<or> c = 0x0D"

text \<open>
  \<open>text.split(/([\<dots>]+)/)\<close>: the pattern matches a maximal non-empty run of
  delimiter characters, and its capture group puts every run into the result, between the
  stretches of text it separates. The result is
  \<open>[s\<^sub>0, d\<^sub>1, s\<^sub>1, \<dots>, d\<^sub>k, s\<^sub>k]\<close>; \<open>s\<^sub>0\<close> is empty when the text starts
  with a delimiter and \<open>s\<^sub>k\<close> is empty when it ends with one.
\<close>

function split_sentences :: "jsstring \<Rightarrow> jsstring list" where
  "split_sentences s =
     (let a = takeWhile (\<lambda>c. \<not> isDelim c) s;
          r = dropWhile (\<lambda>c. \<not> isDelim c) s
      in if r = [] then [a]
         else a # takeWhile isDelim r # split_sentences (dropWhile isDelim r))"
  by pat_completeness auto
termination
proof (relation "measure length")
  show "wf (measure (length :: jsstring \<Rightarrow> nat))" by simp
next
  fix s :: jsstring and a r
  assume r: "r = dropWhile (\<lambda>c. \<not> isDelim c) s" and ne: "r \<noteq> []"
  from ne r have "isDelim (hd r)"
    using hd_dropWhile [of "\<lambda>c. \<not> isDelim c" s] by simp
  with ne have "length (dropWhile isDelim r) < length r"
    by (cases r) (simp_all add: le_imp_less_Suc length_dropWhile_le)
  moreover have "length r \<le> length s"
    using r by (simp add: length_dropWhile_le)
  ultimately show "(dropWhile isDelim r, s) \<in> measure length" by simp
qed

declare split_sentences.simps [simp del]

text \<open>
  The \<open>for\<close> loop over \<open>sentences\<close>, with its two variables \<open>chunks\<close> and
  \<open>currentChunk\<close>. \<open>maxChars\<close> is a number of the source, taken as an integer.
\<close>

fun chunk_loop :: "int \<Rightarrow> jsstring list \<Rightarrow> jsstring list \<Rightarrow> jsstring \<Rightarrow> jsstring list \<times> jsstring" where
  "chunk_loop maxChars [] chunks currentChunk = (chunks, currentChunk)"
| "chunk_loop maxChars (s # sentences) chunks currentChunk =
     (if int (length currentChunk + length s) > maxChars \<and> length (trim currentChunk) > 0
      then chunk_loop maxChars sentences (chunks @ [trim currentChunk]) s
      else chunk_loop maxChars sentences chunks (currentChunk @ s))"

definition splitTextIntoChunks :: "jsstring \<Rightarrow> int \<Rightarrow> jsstring list" where
  "splitTextIntoChunks text maxChars =
     (if text = [] then []
      else case chunk_loop maxChars (split_sentences text) [] [] of
        (chunks, currentChunk) \<Rightarrow>
          if length (trim currentChunk) > 0 then chunks @ [trim currentChunk] else chunks)"


text \<open>
  The shape of the array \<open>sentences\<close>: stretches without a delimiter character and
  non-empty runs of delimiter characters, in turn, starting and ending with a stretch.
\<close>

fun alternates :: "jsstring list \<Rightarrow> bool" where
  "alternates [] = False"
| "alternates [a] = (\<forall>c\<in>set a. \<not> isDelim c)"
| "alternates (a # d # rest) =
     ((\<forall>c\<in>set a. \<not> isDelim c) \<and> d \<noteq> [] \<and> (\<forall>c\<in>set d. isDelim c) \<and> alternates rest)"

section \<open>Numbers of the source\<close>

text \<open>
  The times and rates of the source are IEEE 754 double precision numbers, and each of
  its arithmetic operations gives the double nearest to the exact result, a tie going to
  the even significand. \<open>double\<close> is that rounding: \<open>exponent x\<close> is the binary
  exponent of \<open>x\<close>, from \<open>-1022\<close> (which it is for all subnormal numbers and zero) to
  \<open>1023\<close>, and the doubles of that exponent are the multiples of
  \<open>2 powi (exponent x - 52)\<close>. A result of magnitude \<open>2 ^ 1024\<close> or more, which the
  source carries as an infinity, has no place among the reals: \<open>double\<close> rounds it like
  a number of exponent 1023. The clock of an audio context and the rates of the controls
  are far from there.
\<close>

fun halvings :: "nat \<Rightarrow> real \<Rightarrow> nat" where
  "halvings 0 x = 0"
| "halvings (Suc n) x = (if x < 2 then 0 else Suc (halvings n (x / 2)))"

fun doublings :: "nat \<Rightarrow> real \<Rightarrow> nat" where
  "doublings 0 x = 0"
| "doublings (Suc n) x = (if 1 \<le> x then 0 else Suc (doublings n (x * 2)))"

definition exponent :: "real \<Rightarrow> int" where
  "exponent x =
     (if 1 \<le> \<bar>x\<bar> then int (halvings 1023 \<bar>x\<bar>) else - int (doublings 1022 \<bar>x\<bar>))"

definition roundTiesToEven :: "real \<Rightarrow> int" where
  "roundTiesToEven y =
     (let n = \<lfloor>y\<rfloor>; d = y - of_int n
      in if d < 1 / 2 then n else if 1 / 2 < d then n + 1 else if even n then n else n + 1)"

definition double :: "real \<Rightarrow> real" where
  "double x = (let q = 2 powi (exponent x - 52) in q * of_int (roundTiesToEven (x / q)))"

text \<open>
  What \<open>exponent\<close> computes: the exponent \<open>e\<close> with
  \<open>2 powi e \<le> \<bar>x\<bar> < 2 powi (e + 1)\<close>, kept within \<open>-1022\<close> and \<open>1023\<close>.
\<close>

definition has_exponent :: "real \<Rightarrow> int \<Rightarrow> bool" where
  "has_exponent x e \<longleftrightarrow>
     - 1022 \<le> e \<and> e \<le> 1023 \<and> (2 powi e \<le> \<bar>x\<bar> \<or> e = - 1022) \<and> (\<bar>x\<bar> < 2 powi (e + 1) \<or> e = 1023)"

section \<open>App: state of the component\<close>

text \<open>
  The playback core of the component \<open>App\<close>: its state variables (\<open>useState\<close>) and
  its references (\<open>useRef\<close>), in one record. The file, its name, the voice lists and
  the OCR settings take no part in playback and are left out; so are the request
  identifier of the highlight loop and the queues of the platform (speech queue, pending
  frames and timers), which the component cannot read.

  A handler is a closure of one render: the state variables it reads are those of that
  render, however the state has changed since; the references it reads are current. Every
  handler below therefore takes the state twice: \<open>r\<close>, the state of the render that made
  the closure, from which only state variables are read, and \<open>s\<close>, the current state, in
  which references are read and to which everything is written. Numbers of the source are
  integers where they count; where they measure time they are doubles, and every
  operation on them is rounded by \<open>double\<close>.
\<close>

datatype AppStatus = IDLE | PARSING_PDF | GENERATING_AUDIO | READY_TO_PLAY | PLAYING | ERROR

datatype engine = Gemini | Browser

datatype message = GenerationFailed | BufferingTimedOut | ParsingFailed

datatype AudioBuffer = AudioBuffer (duration: real)

text \<open>A started buffer source: its buffer, its playback rate and the offset it started at.\<close>

datatype source = Source (buffer: AudioBuffer) (rate: real) (startOffset: real)

record app =
  extractedText :: jsstring
  status :: AppStatus
  errorMsg :: "message option"
  ttsEngine :: engine
  playbackRate :: real
  timerDuration :: int
  timeLeft :: "int option"
  chunks :: "jsstring list"
  currentChunkIndex :: int
  chunkProgressIndex :: int
  isPlaying :: bool
  audioContextRef :: bool
  sourceNodeRef :: "source option"
  audioCacheRef :: "int \<rightharpoonup> AudioBuffer"
  fetchingSetRef :: "int set"
  startTimeRef :: real
  pausedTimeRef :: real
  isPlayingRef :: bool
  sessionIdRef :: nat
  synthCalls :: "(int \<times> nat) list"

text \<open>
  \<open>audioContextRef\<close> tells whether the reference holds a context. \<open>synthCalls\<close> is
  not a variable of the source: it logs every call of the collaborator
  \<open>generateSpeechFromText\<close>, with the index of the segment and the generation the call
  was made for.

  What the audio context reports when a handler asks: whether its state is
  \<open>suspended\<close>, and its clock.
\<close>

record audio_context =
  suspended :: bool
  currentTime :: real

text \<open>The state of the first render.\<close>

definition initial :: app where
  "initial = \<lparr>extractedText = [], status = IDLE, errorMsg = None, ttsEngine = Gemini,
     playbackRate = 1, timerDuration = 30, timeLeft = None, chunks = [],
     currentChunkIndex = 0, chunkProgressIndex = - 1, isPlaying = False,
     audioContextRef = False, sourceNodeRef = None, audioCacheRef = Map.empty,
     fetchingSetRef = {}, startTimeRef = 0, pausedTimeRef = 0, isPlayingRef = False,
     sessionIdRef = 0, synthCalls = []\<rparr>"

section \<open>App: handlers\<close>

definition unlockAudioContext :: "app \<Rightarrow> app" where
  "unlockAudioContext s = s\<lparr>audioContextRef := True\<rparr>"

definition resetAudioState :: "app \<Rightarrow> app \<Rightarrow> app" where
  "resetAudioState r s =
     s\<lparr>isPlayingRef := False, isPlaying := False, chunkProgressIndex := - 1,
       sourceNodeRef := None, audioCacheRef := Map.empty, fetchingSetRef := {},
       sessionIdRef := sessionIdRef s + 1, currentChunkIndex := 0, pausedTimeRef := 0,
       timeLeft := (if timerDuration r > 0 then Some (timerDuration r * 60) else None)\<rparr>"

subsection \<open>preloadGeminiChunk\<close>

text \<open>
  The part of \<open>preloadGeminiChunk\<close> before its first suspension: the four guards, the
  entry into the set of fetches in flight and the call of the collaborator. The boolean
  tells whether the function is now suspended at that call (\<open>True\<close>) or has returned.
\<close>

definition preloadGeminiChunk :: "app \<Rightarrow> int \<Rightarrow> nat \<Rightarrow> app \<Rightarrow> app \<times> bool" where
  "preloadGeminiChunk r index currentSessionId s =
     (if timeLeft r = Some 0 \<and> timerDuration r > 0 then (s, False)
      else if index \<ge> int (length (chunks r)) \<or> index < 0 then (s, False)
      else if audioCacheRef s index \<noteq> None then (s, False)
      else if index \<in> fetchingSetRef s then (s, False)
      else (s\<lparr>fetchingSetRef := insert index (fetchingSetRef s),
              synthCalls := synthCalls s @ [(index, currentSessionId)]\<rparr>, True))"

text \<open>
  How the call of the collaborator settles: it rejects, or it resolves with data; the
  argument of \<open>Resolved\<close> is what \<open>decodeBase64\<close> and \<open>decodeAudioData\<close> make of
  the data, \<open>None\<close> when one of them throws.
\<close>

datatype synth = Rejected | Resolved "AudioBuffer option"

text \<open>
  \<open>try\<close>, \<open>catch\<close> and \<open>finally\<close>: a block returns \<open>Inl\<close> with the state it
  has reached when it throws, \<open>Inr\<close> when it completes or returns.
\<close>

definition try_catch_finally ::
    "('s \<Rightarrow> 's + 's) \<Rightarrow> ('s \<Rightarrow> 's + 's) \<Rightarrow> ('s \<Rightarrow> 's) \<Rightarrow> 's \<Rightarrow> 's + 's" where
  "try_catch_finally body handler final s =
     (case body s of
        Inr s1 \<Rightarrow> Inr (final s1)
      | Inl s1 \<Rightarrow> (case handler s1 of Inr s2 \<Rightarrow> Inr (final s2) | Inl s2 \<Rightarrow> Inl (final s2)))"

text \<open>
  The rest of the \<open>try\<close> block, from the point where the call of the collaborator
  settles. \<open>decodeAudioData\<close> is declared \<open>async\<close> but awaits nothing: it has run
  to its end when it returns, and the function goes on in the next microtask of the same
  turn of the event loop, before any handler or callback of the component can run; so
  the decoding and the entry into the cache belong to this step.
\<close>

definition preloadGeminiChunk_body :: "int \<Rightarrow> nat \<Rightarrow> synth \<Rightarrow> app \<Rightarrow> app + app" where
  "preloadGeminiChunk_body index currentSessionId result s =
     (case result of
        Rejected \<Rightarrow> Inl s
      | Resolved decoded \<Rightarrow>
          if currentSessionId \<noteq> sessionIdRef s then Inr s
          else (case decoded of
                  None \<Rightarrow> Inl (s\<lparr>audioContextRef := True\<rparr>)
                | Some audioBuffer \<Rightarrow>
                    Inr (s\<lparr>audioContextRef := True,
                           audioCacheRef := (audioCacheRef s)(index \<mapsto> audioBuffer)\<rparr>)))"

definition preloadGeminiChunk_settled :: "int \<Rightarrow> nat \<Rightarrow> synth \<Rightarrow> app \<Rightarrow> app + app" where
  "preloadGeminiChunk_settled index currentSessionId result =
     try_catch_finally (preloadGeminiChunk_body index currentSessionId result) Inr
       (\<lambda>s. s\<lparr>fetchingSetRef := fetchingSetRef s - {index}\<rparr>)"

text \<open>The state a call leaves, whether it returned or threw.\<close>

definition state_of :: "app + app \<Rightarrow> app" where
  "state_of x = (case x of Inl s \<Rightarrow> s | Inr s \<Rightarrow> s)"

subsection \<open>playSequence\<close>

definition timerExpired :: "app \<Rightarrow> bool" where
  "timerExpired r \<longleftrightarrow>
     timerDuration r > 0 \<and> (case timeLeft r of None \<Rightarrow> False | Some t \<Rightarrow> t \<le> 0)"

text \<open>
  The last part of the buffered path: the look-ahead for the next segment (not awaited),
  and the start of the source at the offset \<open>pausedTimeRef\<close>. The timer for the segment
  after, the highlight loop and the \<open>onended\<close> callback are handed to the platform
  here; they are \<open>prefetchTimeout\<close>, \<open>animateProgress\<close> and \<open>source_onended\<close>
  below.
\<close>

definition playSequence_start ::
    "app \<Rightarrow> int \<Rightarrow> nat \<Rightarrow> AudioBuffer \<Rightarrow> audio_context \<Rightarrow> app \<Rightarrow> app" where
  "playSequence_start r index currentSessionId buf ctx s =
     (let s1 = fst (preloadGeminiChunk r (index + 1) currentSessionId s);
          offset = pausedTimeRef s1
      in s1\<lparr>startTimeRef := currentTime ctx,
             sourceNodeRef := Some (Source buf (playbackRate r) offset)\<rparr>)"

text \<open>After \<open>await preloadGeminiChunk(index, currentSessionId)\<close>.\<close>

definition playSequence_buffered ::
    "app \<Rightarrow> int \<Rightarrow> nat \<Rightarrow> audio_context \<Rightarrow> app \<Rightarrow> app" where
  "playSequence_buffered r index currentSessionId ctx s =
     (if sessionIdRef s \<noteq> currentSessionId then s
      else case audioCacheRef s index of
        None \<Rightarrow>
          if sessionIdRef s = currentSessionId
          then s\<lparr>isPlaying := False, isPlayingRef := False, status := ERROR,
                 errorMsg := Some BufferingTimedOut\<rparr>
          else s
      | Some buf \<Rightarrow> playSequence_start r index currentSessionId buf ctx (s\<lparr>status := PLAYING\<rparr>))"

text \<open>
  From the look-up in the cache on: where \<open>playSequence\<close> goes on when the context
  was not suspended, or after \<open>await audioContextRef.current.resume()\<close>. When the
  look-up fails and \<open>preloadGeminiChunk\<close> suspends, the function waits for it, and
  \<open>playSequence_buffered\<close> follows when the fetch has settled.
\<close>

definition playSequence_resumed ::
    "app \<Rightarrow> int \<Rightarrow> nat \<Rightarrow> audio_context \<Rightarrow> app \<Rightarrow> app" where
  "playSequence_resumed r index currentSessionId ctx s =
     (case audioCacheRef s index of
        Some buf \<Rightarrow> playSequence_start r index currentSessionId buf ctx s
      | None \<Rightarrow>
          (case preloadGeminiChunk r index currentSessionId (s\<lparr>status := GENERATING_AUDIO\<rparr>) of
             (s1, True) \<Rightarrow> s1
           | (s1, False) \<Rightarrow> playSequence_buffered r index currentSessionId ctx s1))"

text \<open>
  \<open>playSequence(index, currentChunks)\<close>. On the path of the browser's own speech the
  utterance with its three callbacks is handed to the speech queue. On the buffered path
  a suspended context is resumed first, and \<open>playSequence_resumed\<close> follows when the
  platform has answered.
\<close>

definition playSequence :: "app \<Rightarrow> int \<Rightarrow> jsstring list \<Rightarrow> audio_context \<Rightarrow> app \<Rightarrow> app" where
  "playSequence r index currentChunks ctx s =
     (if timerExpired r
      then s\<lparr>isPlaying := False, isPlayingRef := False, status := READY_TO_PLAY\<rparr>
      else if index \<ge> int (length currentChunks)
      then s\<lparr>isPlaying := False, isPlayingRef := False, status := IDLE,
             currentChunkIndex := 0, pausedTimeRef := 0, chunkProgressIndex := - 1\<rparr>
      else
        let s1 = s\<lparr>currentChunkIndex := index, isPlaying := True, isPlayingRef := True,
                   status := PLAYING, chunkProgressIndex := 0\<rparr>
        in if ttsEngine r = Browser then s1
           else if suspended ctx then s1\<lparr>audioContextRef := True\<rparr>
           else playSequence_resumed r index (sessionIdRef s) ctx (s1\<lparr>audioContextRef := True\<rparr>))"

subsection \<open>Callbacks\<close>

text \<open>
  The callbacks a call \<open>playSequence(index, currentChunks)\<close> hands to the platform,
  each with the variables it has captured: the render \<open>r\<close>, \<open>index\<close>,
  \<open>currentChunks\<close> and \<open>currentSessionId\<close>.
\<close>

definition utterance_onboundary :: "string \<Rightarrow> int \<Rightarrow> app \<Rightarrow> app" where
  "utterance_onboundary name charIndex s =
     (if name = ''word'' \<or> name = ''sentence'' then s\<lparr>chunkProgressIndex := charIndex\<rparr> else s)"

definition utterance_onend ::
    "app \<Rightarrow> int \<Rightarrow> jsstring list \<Rightarrow> nat \<Rightarrow> audio_context \<Rightarrow> app \<Rightarrow> app" where
  "utterance_onend r index currentChunks currentSessionId ctx s =
     (if isPlayingRef s \<and> sessionIdRef s = currentSessionId
      then playSequence r (index + 1) currentChunks ctx (s\<lparr>chunkProgressIndex := - 1\<rparr>)
      else s)"

definition utterance_onerror :: "string \<Rightarrow> app \<Rightarrow> app" where
  "utterance_onerror error s =
     (if error = ''interrupted'' \<or> error = ''canceled'' then s
      else s\<lparr>isPlaying := False, isPlayingRef := False\<rparr>)"

definition prefetchTimeout :: "app \<Rightarrow> int \<Rightarrow> nat \<Rightarrow> app \<Rightarrow> app" where
  "prefetchTimeout r index currentSessionId s =
     (if isPlayingRef s \<and> sessionIdRef s = currentSessionId
      then fst (preloadGeminiChunk r (index + 2) currentSessionId s)
      else s)"

definition source_onended ::
    "app \<Rightarrow> int \<Rightarrow> jsstring list \<Rightarrow> nat \<Rightarrow> audio_context \<Rightarrow> app \<Rightarrow> app" where
  "source_onended r index currentChunks currentSessionId ctx s =
     (if isPlayingRef s \<and> sessionIdRef s = currentSessionId
      then playSequence r (index + 1) currentChunks ctx
             (s\<lparr>pausedTimeRef := 0, chunkProgressIndex := - 1\<rparr>)
      else s)"

text \<open>
  The highlight estimator. \<open>offset\<close>, \<open>bufferDuration\<close> and
  \<open>chunkTextLength\<close> are captured when the source starts; \<open>elapsedAudioTime\<close>
  is the position in the clip it computes. The duration of a decoded clip is positive
  (a buffer has one frame at least), so the quotient is a finite number.
\<close>

definition elapsedAudioTime :: "app \<Rightarrow> real \<Rightarrow> audio_context \<Rightarrow> app \<Rightarrow> real" where
  "elapsedAudioTime r offset ctx s =
     (let elapsedRealTime = double (currentTime ctx - startTimeRef s)
      in double (double (elapsedRealTime * playbackRate r) + offset))"

definition animateProgress ::
    "app \<Rightarrow> nat \<Rightarrow> real \<Rightarrow> real \<Rightarrow> nat \<Rightarrow> audio_context \<Rightarrow> app \<Rightarrow> app" where
  "animateProgress r currentSessionId offset bufferDuration chunkTextLength ctx s =
     (if \<not> isPlayingRef s \<or> sessionIdRef s \<noteq> currentSessionId \<or> sourceNodeRef s = None \<or>
         \<not> audioContextRef s
      then s
      else if elapsedAudioTime r offset ctx s \<ge> bufferDuration
      then s\<lparr>chunkProgressIndex := int chunkTextLength\<rparr>
      else
        let ratio = double (elapsedAudioTime r offset ctx s / bufferDuration)
        in s\<lparr>chunkProgressIndex := \<lfloor>double (ratio * real chunkTextLength)\<rfloor>\<rparr>)"

subsection \<open>Handlers of the controls\<close>

definition handlePause :: "app \<Rightarrow> audio_context \<Rightarrow> app \<Rightarrow> app" where
  "handlePause r ctx s =
     (let s1 = s\<lparr>isPlayingRef := False, isPlaying := False, status := READY_TO_PLAY\<rparr>
      in if ttsEngine r = Browser then s1
         else if sourceNodeRef s1 \<noteq> None \<and> audioContextRef s1
         then
           let elapsed = double (double (currentTime ctx - startTimeRef s1) * playbackRate r)
           in s1\<lparr>pausedTimeRef := double (pausedTimeRef s1 + elapsed)\<rparr>
         else s1)"

text \<open>\<open>confirmed\<close> is the answer to the question asked when the timer has run out.\<close>

definition handleResume :: "app \<Rightarrow> bool \<Rightarrow> audio_context \<Rightarrow> app \<Rightarrow> app" where
  "handleResume r confirmed ctx s =
     (if timerExpired r \<and> \<not> confirmed then s
      else
        let s1 = (if timerExpired r then s\<lparr>timeLeft := Some (timerDuration r * 60)\<rparr> else s);
            s2 = (if ttsEngine r = Gemini then unlockAudioContext s1 else s1)
        in playSequence r (currentChunkIndex r) (chunks r) ctx s2)"

text \<open>After \<open>await preloadGeminiChunk(0, currentSessionId)\<close> in \<open>handleStartProcess\<close>.\<close>

definition handleStartProcess_buffered ::
    "app \<Rightarrow> jsstring list \<Rightarrow> nat \<Rightarrow> audio_context \<Rightarrow> app \<Rightarrow> app" where
  "handleStartProcess_buffered r newChunks currentSessionId ctx s =
     (if currentSessionId \<noteq> sessionIdRef s then s
      else if audioCacheRef s 0 \<noteq> None
      then playSequence r 0 newChunks ctx (s\<lparr>status := READY_TO_PLAY\<rparr>)
      else s\<lparr>errorMsg := Some GenerationFailed, status := IDLE\<rparr>)"

definition handleStartProcess :: "app \<Rightarrow> audio_context \<Rightarrow> app \<Rightarrow> app" where
  "handleStartProcess r ctx s =
     (if extractedText r = [] then s
      else
        let s1 = (if ttsEngine r = Gemini then unlockAudioContext s else s);
            s2 = resetAudioState r s1;
            s3 = s2\<lparr>timeLeft :=
                      (if timerDuration r > 0 then Some (timerDuration r * 60) else None)\<rparr>;
            chunkSize = (if ttsEngine r = Gemini then 200 else 2500);
            newChunks = splitTextIntoChunks (extractedText r) chunkSize;
            s4 = s3\<lparr>chunks := newChunks\<rparr>
        in if newChunks = [] then s4
           else if ttsEngine r = Gemini
           then (case preloadGeminiChunk r 0 (sessionIdRef s4) (s4\<lparr>status := GENERATING_AUDIO\<rparr>) of
                   (s5, True) \<Rightarrow> s5
                 | (s5, False) \<Rightarrow> handleStartProcess_buffered r newChunks (sessionIdRef s4) ctx s5)
           else playSequence r 0 newChunks ctx (s4\<lparr>status := READY_TO_PLAY\<rparr>))"

definition handleJumpToChunk :: "app \<Rightarrow> int \<Rightarrow> audio_context \<Rightarrow> app \<Rightarrow> app" where
  "handleJumpToChunk r index ctx s =
     (if status r = PARSING_PDF then s
      else
        let s1 = (if ttsEngine r = Gemini then unlockAudioContext s else s);
            s2 = s1\<lparr>isPlayingRef := False, isPlaying := False, sourceNodeRef := None,
                     sessionIdRef := sessionIdRef s1 + 1\<rparr>;
            fallback = (chunks r = [] \<and> length (trim (extractedText r)) > 0);
            currentChunks =
              (if fallback
               then splitTextIntoChunks (extractedText r) (if ttsEngine r = Gemini then 200 else 2500)
               else chunks r);
            s3 = (if fallback then s2\<lparr>chunks := currentChunks\<rparr> else s2)
        in if currentChunks = [] then s3
           else
             let s4 = s3\<lparr>pausedTimeRef := 0, chunkProgressIndex := - 1\<rparr>;
                 s5 = (if timeLeft r = Some 0 \<and> timerDuration r > 0
                       then s4\<lparr>timeLeft := Some (timerDuration r * 60)\<rparr> else s4)
             in playSequence r index currentChunks ctx (s5\<lparr>status := READY_TO_PLAY\<rparr>))"

text \<open>
  The handlers that replace the text or change the settings. Parsing a file is a
  collaborator: \<open>handleFileSelected\<close> awaits it, the text arrives piece by piece
  (\<open>textExtracted\<close>), and \<open>handleFileSelected_parsed\<close> follows with the whole text, or
  with \<open>None\<close> when the parser throws.
\<close>

definition handleFileSelected :: "app \<Rightarrow> app \<Rightarrow> app" where
  "handleFileSelected r s =
     (resetAudioState r (s\<lparr>status := PARSING_PDF, errorMsg := None\<rparr>))
       \<lparr>extractedText := [], chunks := []\<rparr>"

definition textExtracted :: "jsstring \<Rightarrow> app \<Rightarrow> app" where
  "textExtracted newChunk s = s\<lparr>extractedText := extractedText s @ newChunk\<rparr>"

definition handleFileSelected_parsed :: "jsstring option \<Rightarrow> app \<Rightarrow> app" where
  "handleFileSelected_parsed parsed s =
     (case parsed of
        None \<Rightarrow> s\<lparr>errorMsg := Some ParsingFailed, status := ERROR\<rparr>
      | Some text \<Rightarrow>
          if text = [] \<or> length (trim text) = 0
          then s\<lparr>extractedText := [], errorMsg := Some ParsingFailed, status := ERROR\<rparr>
          else s\<lparr>extractedText := text, status := IDLE\<rparr>)"

definition handleTextSubmit :: "app \<Rightarrow> jsstring \<Rightarrow> app \<Rightarrow> app" where
  "handleTextSubmit r text s =
     (resetAudioState r s)\<lparr>extractedText := text, status := IDLE, errorMsg := None\<rparr>"

definition handleEngineChange :: "app \<Rightarrow> engine \<Rightarrow> app \<Rightarrow> app" where
  "handleEngineChange r engine s = (resetAudioState r s)\<lparr>ttsEngine := engine, status := IDLE\<rparr>"

definition handleVoiceChange :: "app \<Rightarrow> app \<Rightarrow> app" where
  "handleVoiceChange r s =
     (if status r = READY_TO_PLAY \<or> status r = PLAYING
      then (resetAudioState r s)\<lparr>status := IDLE\<rparr>
      else s)"

definition handleReset :: "app \<Rightarrow> app \<Rightarrow> app" where
  "handleReset r s =
     (let s1 = (resetAudioState r s)
                 \<lparr>extractedText := [], chunks := [], status := IDLE, errorMsg := None\<rparr>
      in if timerDuration r > 0 then s1\<lparr>timeLeft := Some (timerDuration r * 60)\<rparr> else s1)"

text \<open>The setter of the rate, with the effect that passes the new rate to a source.\<close>

definition setPlaybackRate :: "real \<Rightarrow> app \<Rightarrow> app" where
  "setPlaybackRate newRate s =
     s\<lparr>playbackRate := newRate,
       sourceNodeRef :=
         map_option (\<lambda>src. Source (buffer src) newRate (startOffset src)) (sourceNodeRef s)\<rparr>"

definition handleTimerChange :: "int \<Rightarrow> app \<Rightarrow> app" where
  "handleTimerChange minutes s =
     s\<lparr>timerDuration := minutes,
       timeLeft := (if minutes > 0 then Some (minutes * 60) else None)\<rparr>"

text \<open>
  The tick of the sleep timer, once a second while playing: the update of \<open>timeLeft\<close>
  reads its current value, and pauses when it has reached one.
\<close>

definition timerTick :: "app \<Rightarrow> audio_context \<Rightarrow> app \<Rightarrow> app" where
  "timerTick r ctx s =
     (case timeLeft s of
        None \<Rightarrow> s
      | Some prev \<Rightarrow>
          if prev \<le> 1 then (handlePause r ctx s)\<lparr>timeLeft := Some 0\<rparr>
          else s\<lparr>timeLeft := Some (prev - 1)\<rparr>)"

section \<open>App: events\<close>

text \<open>
  Everything runs on one thread, one handler or callback at a time; a run of the component
  is a sequence of events. A fetch in flight settles with the continuation of whoever
  awaits it: nobody (a look-ahead), \<open>handleStartProcess\<close> or \<open>playSequence\<close>. The
  events carry what the closure they run has captured; any event may occur in any state,
  which covers every order in which the platform can deliver them. \<open>Reset\<close> is
  \<open>resetAudioState\<close> by itself; \<open>TextEdited\<close> is the setter \<open>setExtractedText\<close>,
  which the text view calls directly.
\<close>

datatype waiter =
    Nobody
  | StartProcess app "jsstring list"
  | PlaySequence app

definition fetchSettled :: "int \<Rightarrow> nat \<Rightarrow> synth \<Rightarrow> waiter \<Rightarrow> audio_context \<Rightarrow> app \<Rightarrow> app" where
  "fetchSettled index currentSessionId result w ctx s =
     (let s1 = state_of (preloadGeminiChunk_settled index currentSessionId result s)
      in case w of
           Nobody \<Rightarrow> s1
         | StartProcess r newChunks \<Rightarrow> handleStartProcess_buffered r newChunks currentSessionId ctx s1
         | PlaySequence r \<Rightarrow> playSequence_buffered r index currentSessionId ctx s1)"

datatype event =
    Reset app
  | FileSelected app
  | TextExtracted jsstring
  | FileParsed "jsstring option"
  | TextSubmit app jsstring
  | TextEdited jsstring
  | EngineChange app engine
  | VoiceChange app
  | ResetButton app
  | TimerChange int
  | RateChange real
  | Start app audio_context
  | Jump app int audio_context
  | Pause app audio_context
  | Resume app bool audio_context
  | Tick app audio_context
  | FetchSettled int nat synth waiter audio_context
  | ContextResumed app int nat audio_context
  | PrefetchTimeout app int nat
  | SourceEnded app int "jsstring list" nat audio_context
  | Frame app nat real real nat audio_context
  | Boundary string int
  | UtteranceEnd app int "jsstring list" nat audio_context
  | UtteranceError string

fun step :: "event \<Rightarrow> app \<Rightarrow> app" where
  "step (Reset r) s = resetAudioState r s"
| "step (FileSelected r) s = handleFileSelected r s"
| "step (TextExtracted newChunk) s = textExtracted newChunk s"
| "step (FileParsed parsed) s = handleFileSelected_parsed parsed s"
| "step (TextSubmit r text) s = handleTextSubmit r text s"
| "step (TextEdited text) s = s\<lparr>extractedText := text\<rparr>"
| "step (EngineChange r engine) s = handleEngineChange r engine s"
| "step (VoiceChange r) s = handleVoiceChange r s"
| "step (ResetButton r) s = handleReset r s"
| "step (TimerChange minutes) s = handleTimerChange minutes s"
| "step (RateChange newRate) s = setPlaybackRate newRate s"
| "step (Start r ctx) s = handleStartProcess r ctx s"
| "step (Jump r index ctx) s = handleJumpToChunk r index ctx s"
| "step (Pause r ctx) s = handlePause r ctx s"
| "step (Resume r confirmed ctx) s = handleResume r confirmed ctx s"
| "step (Tick r ctx) s = timerTick r ctx s"
| "step (FetchSettled index sid result w ctx) s = fetchSettled index sid result w ctx s"
| "step (ContextResumed r index sid ctx) s = playSequence_resumed r index sid ctx s"
| "step (PrefetchTimeout r index sid) s = prefetchTimeout r index sid s"
| "step (SourceEnded r index cs sid ctx) s = source_onended r index cs sid ctx s"
| "step (Frame r sid offset d n ctx) s = animateProgress r sid offset d n ctx s"
| "step (Boundary name charIndex) s = utterance_onboundary name charIndex s"
| "step (UtteranceEnd r index cs sid ctx) s = utterance_onend r index cs sid ctx s"
| "step (UtteranceError e) s = utterance_onerror e s"

fun run :: "event list \<Rightarrow> app \<Rightarrow> app" where
  "run [] s = s"
| "run (e # es) s = run es (step e s)"

section \<open>Runs of the component\<close>

text \<open>
  A state with two segments, as \<open>handleStartProcess\<close> leaves them for the buffered
  backend: each is a sentence of 150 letters with its full stop, too long to share a
  segment of 200 characters. \<open>duplicate_fetch\<close> is a run from that state: the user
  starts the first segment by a click in the playlist, its clip arrives and the look-ahead
  for the second segment goes out; the voice is changed while the status is
  \<open>PLAYING\<close>, which resets the audio state; the user clicks the first segment
  again, its clip arrives and the look-ahead for the second segment goes out again; the
  look-ahead of the first round fails at last; the first segment ends.
\<close>

definition demo_chunks :: "jsstring list" where
  "demo_chunks = [replicate 150 0x61 @ [0x2E], replicate 150 0x62 @ [0x2E]]"

definition demo :: app where
  "demo = initial\<lparr>extractedText := concat demo_chunks, chunks := demo_chunks\<rparr>"

definition clip :: AudioBuffer where
  "clip = AudioBuffer 2"

definition clock :: "real \<Rightarrow> audio_context" where
  "clock t = \<lparr>suspended = False, currentTime = t\<rparr>"

definition duplicate_fetch :: "event list" where
  "duplicate_fetch =
     [Jump demo 0 (clock 0),
      FetchSettled 0 1 (Resolved (Some clip)) (PlaySequence demo) (clock 1),
      VoiceChange (demo\<lparr>status := PLAYING\<rparr>),
      Jump demo 0 (clock 2),
      FetchSettled 0 3 (Resolved (Some clip)) (PlaySequence demo) (clock 3),
      FetchSettled 1 1 Rejected Nobody (clock 4),
      SourceEnded demo 0 demo_chunks 3 (clock 5)]"

text \<open>
  \<open>stopped_then_resumed\<close> is another run from that state: the first segment plays and
  the clip of the second arrives; the user pauses after two seconds, which suspends the
  context and stops the source, and resumes; the context runs again and delivers the
  \<open>ended\<close> signal of the stopped source; \<open>playSequence\<close> goes on after its
  \<open>await\<close> of \<open>resume()\<close>.
\<close>

definition clip_1 :: AudioBuffer where
  "clip_1 = AudioBuffer 3"

definition stopped_then_resumed :: "event list" where
  "stopped_then_resumed =
     [Jump demo 0 (clock 0),
      FetchSettled 0 1 (Resolved (Some clip)) (PlaySequence demo) (clock 1),
      FetchSettled 1 1 (Resolved (Some clip_1)) Nobody (clock 2),
      Pause demo (clock 3),
      Resume demo False \<lparr>suspended = True, currentTime = 3\<rparr>,
      SourceEnded demo 0 demo_chunks 1 (clock 3),
      ContextResumed demo 0 1 (clock 3)]"

text \<open>
  A pause and a resume at the rate 1.5: the clip of the first segment starts at the
  offset 0 when the clock shows 0; the pause comes when the clock shows \<open>tenth\<close>, the
  double next to 0.1, and the resume at the same reading of the clock.
  \<open>three_tenths\<close> is the double next to 0.3.
\<close>

definition brisk :: app where
  "brisk = demo\<lparr>playbackRate := 3 / 2\<rparr>"

definition tenth :: real where
  "tenth = 3602879701896397 / 2 ^ 55"

definition three_tenths :: real where
  "three_tenths = 5404319552844595 / 2 ^ 54"

definition started :: app where
  "started = playSequence brisk 0 demo_chunks (clock 0) (demo\<lparr>audioCacheRef := [0 \<mapsto> clip]\<rparr>)"

definition paused :: app where
  "paused = handlePause brisk (clock tenth) started"

definition resumed :: app where
  "resumed = handleResume brisk False (clock tenth) paused"

section \<open>Properties of the chunker\<close>

subsection \<open>The split and the trim\<close>

lemma concat_split_sentences: "concat (split_sentences s) = s"
proof (induction s rule: split_sentences.induct)
  case (1 s)
  define r where "r = dropWhile (\<lambda>c. \<not> isDelim c) s"
  show ?case
  proof (cases "r = []")
    case True
    then show ?thesis
      unfolding r_def by (subst split_sentences.simps) (simp add: Let_def)
  next
    case False
    have "concat (split_sentences (dropWhile isDelim r)) = dropWhile isDelim r"
      using 1 False unfolding r_def by simp
    then have "concat (split_sentences s) = takeWhile (\<lambda>c. \<not> isDelim c) s @ takeWhile isDelim r @ dropWhile isDelim r"
      using False unfolding r_def by (subst split_sentences.simps) (simp add: Let_def)
    then show ?thesis unfolding r_def by simp
  qed
qed

lemma filter_dropWhile: "filter (\<lambda>c. \<not> P c) (dropWhile P xs) = filter (\<lambda>c. \<not> P c) xs"
  by (induction xs) auto

lemma filter_trim: "filter (\<lambda>c. \<not> isWhiteSpace c) (trim s) = filter (\<lambda>c. \<not> isWhiteSpace c) s"
  by (simp add: trim_def filter_dropWhile flip: rev_filter)

lemma dropWhile_all_iff: "(\<forall>x\<in>set (dropWhile P xs). P x) \<longleftrightarrow> (\<forall>x\<in>set xs. P x)"
  by (induction xs) auto

lemma trim_Nil_iff: "trim s = [] \<longleftrightarrow> (\<forall>c\<in>set s. isWhiteSpace c)"
  by (simp add: trim_def dropWhile_all_iff)

lemma trim_append_ws: "\<forall>c\<in>set w. isWhiteSpace c \<Longrightarrow> trim (w @ s) = trim s"
  by (simp add: trim_def dropWhile_append)

lemma length_trim_le: "length (trim s) \<le> length s"
  unfolding trim_def
  by (metis length_dropWhile_le length_rev order_trans)

lemma dropWhile_self: "xs = [] \<or> \<not> P (hd xs) \<Longrightarrow> dropWhile P xs = xs"
  by (cases xs) auto

lemma trim_idem: "trim (trim s) = trim s"
proof -
  define y where "y = dropWhile isWhiteSpace s"
  define z where "z = rev (dropWhile isWhiteSpace (rev y))"
  have y: "y = z @ rev (takeWhile isWhiteSpace (rev y))"
    unfolding z_def by (metis rev_append rev_rev_ident takeWhile_dropWhile_id)
  have hy: "y \<noteq> [] \<Longrightarrow> \<not> isWhiteSpace (hd y)"
    unfolding y_def by (rule hd_dropWhile)
  have "z = [] \<or> \<not> isWhiteSpace (hd z)"
  proof (cases "z = []")
    case False
    then have "hd z = hd y" "y \<noteq> []" using y by (metis hd_append2, metis append_is_Nil_conv)
    then show ?thesis using hy by simp
  qed simp
  then have 1: "dropWhile isWhiteSpace z = z" by (rule dropWhile_self)
  have 2: "dropWhile isWhiteSpace (rev z) = rev z"
    unfolding z_def by simp
  have "trim z = z" unfolding trim_def 1 2 by simp
  then show ?thesis unfolding z_def y_def trim_def .
qed

lemma alternates_split_sentences: "alternates (split_sentences s)"
proof (induction s rule: split_sentences.induct)
  case (1 s)
  define r where "r = dropWhile (\<lambda>c. \<not> isDelim c) s"
  have a: "\<forall>c\<in>set (takeWhile (\<lambda>c. \<not> isDelim c) s). \<not> isDelim c"
    by (auto dest: set_takeWhileD)
  show ?case
  proof (cases "r = []")
    case True
    then have "split_sentences s = [takeWhile (\<lambda>c. \<not> isDelim c) s]"
      unfolding r_def by (subst split_sentences.simps) (simp add: Let_def)
    then show ?thesis
      using a by simp
  next
    case False
    then have "isDelim (hd r)" unfolding r_def using hd_dropWhile [of "\<lambda>c. \<not> isDelim c" s] by simp
    with False have d: "takeWhile isDelim r \<noteq> []" by (cases r) auto
    have d': "\<forall>c\<in>set (takeWhile isDelim r). isDelim c" by (auto dest: set_takeWhileD)
    have "alternates (split_sentences (dropWhile isDelim r))"
      using 1 False unfolding r_def by simp
    moreover have "split_sentences s = takeWhile (\<lambda>c. \<not> isDelim c) s # takeWhile isDelim r # split_sentences (dropWhile isDelim r)"
      using False unfolding r_def by (subst split_sentences.simps) (simp add: Let_def)
    ultimately show ?thesis
      using a d d' by simp
  qed
qed

subsection \<open>The loop\<close>

lemma chunk_loop_filter:
  "chunk_loop M ss out cur = (out', cur') \<Longrightarrow>
   filter (\<lambda>c. \<not> isWhiteSpace c) (concat out' @ cur') =
   filter (\<lambda>c. \<not> isWhiteSpace c) (concat out @ cur @ concat ss)"
proof (induction ss arbitrary: out cur)
  case Nil
  then show ?case by simp
next
  case (Cons s ss)
  show ?case
  proof (cases "int (length cur + length s) > M \<and> length (trim cur) > 0")
    case True
    with Cons.prems have "chunk_loop M ss (out @ [trim cur]) s = (out', cur')" by simp
    from Cons.IH [OF this] show ?thesis by (simp add: filter_trim)
  next
    case False
    with Cons.prems have "chunk_loop M ss out (cur @ s) = (out', cur')" by auto
    from Cons.IH [OF this] show ?thesis by simp
  qed
qed

lemma chunk_loop_nonempty:
  "chunk_loop M ss out cur = (out', cur') \<Longrightarrow> \<forall>g\<in>set out. trim g \<noteq> [] \<Longrightarrow>
   \<forall>g\<in>set out'. trim g \<noteq> []"
proof (induction ss arbitrary: out cur)
  case Nil
  then show ?case by simp
next
  case (Cons s ss)
  show ?case
  proof (cases "int (length cur + length s) > M \<and> length (trim cur) > 0")
    case True
    with Cons.prems have l: "chunk_loop M ss (out @ [trim cur]) s = (out', cur')" by simp
    have "\<forall>g\<in>set (out @ [trim cur]). trim g \<noteq> []"
      using Cons.prems(2) True by (simp add: trim_idem)
    from Cons.IH [OF l this] show ?thesis .
  next
    case False
    with Cons.prems have "chunk_loop M ss out (cur @ s) = (out', cur')" by auto
    from Cons.IH [OF this Cons.prems(2)] show ?thesis .
  qed
qed

lemma chunk_loop_ws:
  "\<forall>s\<in>set ss. trim s = [] \<Longrightarrow> trim cur = [] \<Longrightarrow>
   \<exists>cur'. chunk_loop M ss out cur = (out, cur') \<and> trim cur' = []"
proof (induction ss arbitrary: cur)
  case Nil
  then show ?case by simp
next
  case (Cons s ss)
  have "trim (cur @ s) = []" using Cons.prems by (auto simp: trim_Nil_iff)
  with Cons.IH [of "cur @ s"] Cons.prems show ?case by simp
qed

lemma chunk_loop_fits:
  "int (length cur + length (concat ss)) \<le> M \<Longrightarrow> chunk_loop M ss out cur = (out, cur @ concat ss)"
proof (induction ss arbitrary: cur)
  case Nil
  then show ?case by simp
next
  case (Cons s ss)
  then show ?case by simp
qed

lemma chunk_loop_bound:
  "chunk_loop M ss out cur = (out', cur') \<Longrightarrow> set ss \<subseteq> P \<Longrightarrow>
   \<forall>g\<in>set out. int (length g) \<le> M \<or> (\<exists>p\<in>P. M < int (length p) \<and> g = trim p) \<Longrightarrow>
   trim cur = [] \<or> int (length cur) \<le> M \<or> (\<exists>p\<in>P. trim cur = trim p) \<Longrightarrow>
   (\<forall>g\<in>set out'. int (length g) \<le> M \<or> (\<exists>p\<in>P. M < int (length p) \<and> g = trim p)) \<and>
   (trim cur' = [] \<or> int (length cur') \<le> M \<or> (\<exists>p\<in>P. trim cur' = trim p))"
proof (induction ss arbitrary: out cur)
  case Nil
  then show ?case by simp
next
  case (Cons s ss)
  have sP: "s \<in> P" and ssP: "set ss \<subseteq> P" using Cons.prems(2) by auto
  show ?case
  proof (cases "int (length cur + length s) > M \<and> length (trim cur) > 0")
    case True
    with Cons.prems have l: "chunk_loop M ss (out @ [trim cur]) s = (out', cur')" by simp
    have g: "int (length (trim cur)) \<le> M \<or> (\<exists>p\<in>P. M < int (length p) \<and> trim cur = trim p)"
    proof (cases "int (length (trim cur)) \<le> M")
      case False
      with Cons.prems(4) True length_trim_le [of cur] obtain p where p: "p \<in> P" "trim cur = trim p"
        by fastforce
      with False length_trim_le [of p] have "M < int (length p)" by simp
      with p show ?thesis by blast
    qed simp
    have "\<forall>g\<in>set (out @ [trim cur]). int (length g) \<le> M \<or> (\<exists>p\<in>P. M < int (length p) \<and> g = trim p)"
      using Cons.prems(3) g by simp
    moreover have "trim s = [] \<or> int (length s) \<le> M \<or> (\<exists>p\<in>P. trim s = trim p)"
      using sP by blast
    ultimately show ?thesis using Cons.IH [OF l ssP] by blast
  next
    case False
    with Cons.prems have l: "chunk_loop M ss out (cur @ s) = (out', cur')" by auto
    have "trim (cur @ s) = [] \<or> int (length (cur @ s)) \<le> M \<or> (\<exists>p\<in>P. trim (cur @ s) = trim p)"
    proof (cases "trim cur = []")
      case True
      then have "trim (cur @ s) = trim s" by (simp add: trim_append_ws trim_Nil_iff)
      with sP show ?thesis by blast
    next
      case False
      with \<open>\<not> (int (length cur + length s) > M \<and> length (trim cur) > 0)\<close>
      show ?thesis by simp
    qed
    with Cons.IH [OF l ssP Cons.prems(3)] show ?thesis by blast
  qed
qed

lemma splitTextIntoChunks_whitespace: "\<forall>c\<in>set text. isWhiteSpace c \<Longrightarrow> splitTextIntoChunks text maxChars = []"
proof -
  assume ws: "\<forall>c\<in>set text. isWhiteSpace c"
  have "set (concat (split_sentences text)) = set text" by (simp add: concat_split_sentences)
  with ws have "\<forall>s\<in>set (split_sentences text). trim s = []"
    by (auto simp: trim_Nil_iff)
  then obtain cur where "chunk_loop maxChars (split_sentences text) [] [] = ([], cur)" "trim cur = []"
    using chunk_loop_ws [of "split_sentences text" "[]" maxChars "[]"] by (auto simp: trim_def)
  then show ?thesis by (simp add: splitTextIntoChunks_def)
qed

lemma splitTextIntoChunks_fits: "int (length text) \<le> maxChars \<Longrightarrow>
   splitTextIntoChunks text maxChars = (if trim text = [] then [] else [trim text])"
  using chunk_loop_fits [of "[]" "split_sentences text" maxChars "[]"]
  by (auto simp: splitTextIntoChunks_def concat_split_sentences trim_def)

lemma chunk_loop_cuts:
  "chunk_loop M ss out cur = (out', cur') \<Longrightarrow>
   \<exists>gs. concat gs @ cur' = cur @ concat ss \<and> out' = out @ filter (\<lambda>g. g \<noteq> []) (map trim gs)"
proof (induction ss arbitrary: out cur)
  case Nil
  then have "concat [] @ cur' = cur @ concat [] \<and> out' = out @ filter (\<lambda>g. g \<noteq> []) (map trim [])"
    by simp
  then show ?case by blast
next
  case (Cons s ss)
  show ?case
  proof (cases "int (length cur + length s) > M \<and> length (trim cur) > 0")
    case True
    with Cons.prems have "chunk_loop M ss (out @ [trim cur]) s = (out', cur')" by simp
    from Cons.IH [OF this] obtain gs where
      gs: "concat gs @ cur' = s @ concat ss" "out' = (out @ [trim cur]) @ filter (\<lambda>g. g \<noteq> []) (map trim gs)"
      by blast
    have "concat (cur # gs) @ cur' = cur @ concat (s # ss) \<and>
        out' = out @ filter (\<lambda>g. g \<noteq> []) (map trim (cur # gs))"
      using gs True by simp
    then show ?thesis by blast
  next
    case False
    with Cons.prems have "chunk_loop M ss out (cur @ s) = (out', cur')" by auto
    from Cons.IH [OF this] show ?thesis by simp
  qed
qed

lemma splitTextIntoChunks_cuts:
  "\<exists>gs. concat gs = text \<and> splitTextIntoChunks text maxChars = filter (\<lambda>g. g \<noteq> []) (map trim gs)"
proof (cases "text = []")
  case True
  then have "concat [] = text \<and> splitTextIntoChunks text maxChars = filter (\<lambda>g. g \<noteq> []) (map trim [])"
    by (simp add: splitTextIntoChunks_def)
  then show ?thesis by blast
next
  case False
  obtain out cur where l: "chunk_loop maxChars (split_sentences text) [] [] = (out, cur)"
    by (cases "chunk_loop maxChars (split_sentences text) [] []")
  from chunk_loop_cuts [OF l] obtain gs where
    gs: "concat gs @ cur = text" "out = filter (\<lambda>g. g \<noteq> []) (map trim gs)"
    by (auto simp: concat_split_sentences)
  have "concat (gs @ [cur]) = text \<and>
      splitTextIntoChunks text maxChars = filter (\<lambda>g. g \<noteq> []) (map trim (gs @ [cur]))"
    using gs l False by (simp add: splitTextIntoChunks_def)
  then show ?thesis by blast
qed

lemma splitTextIntoChunks_content: "(\<forall>g\<in>set (splitTextIntoChunks text maxChars). trim g \<noteq> []) \<and>
   filter (\<lambda>c. \<not> isWhiteSpace c) (concat (splitTextIntoChunks text maxChars)) =
   filter (\<lambda>c. \<not> isWhiteSpace c) text"
proof (cases "text = []")
  case True
  then show ?thesis by (simp add: splitTextIntoChunks_def)
next
  case False
  obtain out cur where l: "chunk_loop maxChars (split_sentences text) [] [] = (out, cur)"
    by (cases "chunk_loop maxChars (split_sentences text) [] []")
  have ne: "\<forall>g\<in>set out. trim g \<noteq> []"
    using chunk_loop_nonempty [OF l] by simp
  have f: "filter (\<lambda>c. \<not> isWhiteSpace c) (concat out @ cur) = filter (\<lambda>c. \<not> isWhiteSpace c) text"
    using chunk_loop_filter [OF l] by (simp add: concat_split_sentences)
  show ?thesis
  proof (cases "trim cur = []")
    case True
    then have "filter (\<lambda>c. \<not> isWhiteSpace c) cur = []"
      by (simp add: trim_Nil_iff)
    with True False l ne f show ?thesis by (simp add: splitTextIntoChunks_def)
  next
    case nt: False
    have "filter (\<lambda>c. \<not> isWhiteSpace c) (concat (out @ [trim cur])) = filter (\<lambda>c. \<not> isWhiteSpace c) text"
      using f by (simp add: filter_trim)
    with nt False l ne show ?thesis by (simp add: splitTextIntoChunks_def trim_idem)
  qed
qed

text \<open>
  Claim C6. For every text and every \<open>maxChars\<close>, no element of
  \<open>splitTextIntoChunks text maxChars\<close> is empty after trimming, and the segments are
  the text up to white space at their ends: the text is cut into consecutive pieces, each
  piece is trimmed, and the pieces of white space only are dropped. So the characters of
  the segments that are not white space are, in order, exactly those of the text.
\<close>

theorem splitTextIntoChunks_keeps_content:
  "(\<forall>g\<in>set (splitTextIntoChunks text maxChars). trim g \<noteq> []) \<and>
   (\<exists>gs. concat gs = text \<and>
      splitTextIntoChunks text maxChars = filter (\<lambda>g. g \<noteq> []) (map trim gs)) \<and>
   filter (\<lambda>c. \<not> isWhiteSpace c) (concat (splitTextIntoChunks text maxChars)) =
   filter (\<lambda>c. \<not> isWhiteSpace c) text"
  using splitTextIntoChunks_content splitTextIntoChunks_cuts by blast

theorem splitTextIntoChunks_keeps_content_witness:
  "js ''b'' \<in> set (splitTextIntoChunks (js ''a. b'') 2) \<and> trim (js ''b'') \<noteq> [] \<and>
   filter (\<lambda>c. \<not> isWhiteSpace c) (concat (splitTextIntoChunks (js ''a. b'') 2)) = js ''a.b''"
  using splitTextIntoChunks_keeps_content [of "js ''a. b''" 2]
  by (simp add: splitTextIntoChunks_def split_sentences.simps js_def isDelim_def trim_def
      isWhiteSpace_def)

lemma splitTextIntoChunks_bound: "\<forall>g\<in>set (splitTextIntoChunks text maxChars).
     int (length g) \<le> maxChars \<or>
     (\<exists>p\<in>set (split_sentences text). maxChars < int (length p) \<and> g = trim p)"
proof (cases "text = []")
  case True
  then show ?thesis by (simp add: splitTextIntoChunks_def)
next
  case False
  let ?P = "set (split_sentences text)"
  obtain out cur where l: "chunk_loop maxChars (split_sentences text) [] [] = (out, cur)"
    by (cases "chunk_loop maxChars (split_sentences text) [] []")
  have b: "(\<forall>g\<in>set out. int (length g) \<le> maxChars \<or> (\<exists>p\<in>?P. maxChars < int (length p) \<and> g = trim p)) \<and>
   (trim cur = [] \<or> int (length cur) \<le> maxChars \<or> (\<exists>p\<in>?P. trim cur = trim p))"
    by (rule chunk_loop_bound [OF l]) (simp_all add: trim_def)
  have "int (length (trim cur)) \<le> maxChars \<or> (\<exists>p\<in>?P. maxChars < int (length p) \<and> trim cur = trim p)"
    if nt: "trim cur \<noteq> []"
  proof (cases "int (length (trim cur)) \<le> maxChars")
    case False
    with b nt length_trim_le [of cur] obtain p where p: "p \<in> ?P" "trim cur = trim p"
      by fastforce
    with False length_trim_le [of p] have "maxChars < int (length p)" by simp
    with p show ?thesis by blast
  qed simp
  with b False l show ?thesis by (auto simp: splitTextIntoChunks_def)
qed

lemma alternates_elements:
  "alternates ps \<Longrightarrow> p \<in> set ps \<Longrightarrow> (\<forall>c\<in>set p. \<not> isDelim c) \<or> (\<forall>c\<in>set p. isDelim c)"
  by (induction ps rule: alternates.induct) auto

lemma chunk_loop_groups:
  "chunk_loop M ss out (concat cg) = (out', cur') \<Longrightarrow>
   \<exists>gs cg'. concat gs @ cg' = cg @ ss \<and> cur' = concat cg' \<and>
     out' = out @ filter (\<lambda>g. g \<noteq> []) (map (\<lambda>g. trim (concat g)) gs)"
proof (induction ss arbitrary: out cg)
  case Nil
  then have "concat [] @ cg = cg @ [] \<and> cur' = concat cg \<and>
      out' = out @ filter (\<lambda>g. g \<noteq> []) (map (\<lambda>g. trim (concat g)) [])"
    by simp
  then show ?case by blast
next
  case (Cons s ss)
  show ?case
  proof (cases "int (length (concat cg) + length s) > M \<and> length (trim (concat cg)) > 0")
    case True
    with Cons.prems have "chunk_loop M ss (out @ [trim (concat cg)]) (concat [s]) = (out', cur')"
      by simp
    from Cons.IH [OF this] obtain gs cg' where
      gs: "concat gs @ cg' = [s] @ ss" "cur' = concat cg'"
        "out' = (out @ [trim (concat cg)]) @ filter (\<lambda>g. g \<noteq> []) (map (\<lambda>g. trim (concat g)) gs)"
      by blast
    have "concat (cg # gs) @ cg' = cg @ s # ss \<and> cur' = concat cg' \<and>
        out' = out @ filter (\<lambda>g. g \<noteq> []) (map (\<lambda>g. trim (concat g)) (cg # gs))"
      using gs True by simp
    then show ?thesis by blast
  next
    case False
    with Cons.prems have "chunk_loop M ss out (concat (cg @ [s])) = (out', cur')" by auto
    from Cons.IH [OF this] show ?thesis by simp
  qed
qed

lemma splitTextIntoChunks_groups:
  "\<exists>gs. concat gs = split_sentences text \<and>
     splitTextIntoChunks text maxChars = filter (\<lambda>g. g \<noteq> []) (map (\<lambda>g. trim (concat g)) gs)"
proof (cases "text = []")
  case True
  have "split_sentences [] = [[]]" by (subst split_sentences.simps) simp
  with True have "concat [[[]]] = split_sentences text \<and>
      splitTextIntoChunks text maxChars = filter (\<lambda>g. g \<noteq> []) (map (\<lambda>g. trim (concat g)) [[[]]])"
    by (simp add: splitTextIntoChunks_def trim_def)
  then show ?thesis by blast
next
  case False
  obtain out cur where l: "chunk_loop maxChars (split_sentences text) [] [] = (out, cur)"
    by (cases "chunk_loop maxChars (split_sentences text) [] []")
  then have "chunk_loop maxChars (split_sentences text) [] (concat []) = (out, cur)" by simp
  from chunk_loop_groups [OF this] obtain gs cg where
    gs: "concat gs @ cg = split_sentences text" "cur = concat cg"
      "out = filter (\<lambda>g. g \<noteq> []) (map (\<lambda>g. trim (concat g)) gs)"
    by auto
  have "concat (gs @ [cg]) = split_sentences text \<and>
      splitTextIntoChunks text maxChars =
        filter (\<lambda>g. g \<noteq> []) (map (\<lambda>g. trim (concat g)) (gs @ [cg]))"
    using gs l False by (simp add: splitTextIntoChunks_def)
  then show ?thesis by blast
qed

text \<open>
  Claim C7, as stated: a segment is longer than \<open>maxChars\<close> only when it holds one
  sentence that itself is longer. It fails: with \<open>maxChars = 4\<close> the text
  \<open>a!!!!!!!!\<close> gives the segment \<open>!!!!!!!!\<close>, eight characters of delimiters
  and no sentence; the only sentence of the text is \<open>a\<close>.
\<close>

theorem long_delimiter_run_counterexample:
  "splitTextIntoChunks (js ''a!!!!!!!!'') 4 = [js ''a'', js ''!!!!!!!!''] \<and>
   4 < int (length (js ''!!!!!!!!'')) \<and> list_all isDelim (js ''!!!!!!!!'') \<and>
   split_sentences (js ''a!!!!!!!!'') = [js ''a'', js ''!!!!!!!!'', []] \<and>
   int (length (js ''a'')) \<le> 4"
  by (simp add: splitTextIntoChunks_def split_sentences.simps js_def isDelim_def trim_def
      isWhiteSpace_def)

text \<open>
  Claim C7, amended. The elements of the split (the stretches between delimiters, which
  are the sentences, and the runs of delimiters) go whole and in order into the segments:
  every segment is the trimmed concatenation of consecutive elements, and no element is
  truncated or cut. A segment longer than \<open>maxChars\<close> is one single element that
  itself is longer than \<open>maxChars\<close>, a sentence or a run of delimiters, with the white
  space at its ends trimmed. This holds for every \<open>maxChars\<close> and every text.
\<close>

theorem splitTextIntoChunks_whole_elements:
  "(\<exists>gs. concat gs = split_sentences text \<and>
      splitTextIntoChunks text maxChars =
        filter (\<lambda>g. g \<noteq> []) (map (\<lambda>g. trim (concat g)) gs)) \<and>
   (\<forall>g\<in>set (splitTextIntoChunks text maxChars).
      int (length g) \<le> maxChars \<or>
      (\<exists>p\<in>set (split_sentences text). maxChars < int (length p) \<and> g = trim p \<and>
         ((\<forall>c\<in>set p. \<not> isDelim c) \<or> (\<forall>c\<in>set p. isDelim c))))"
  using splitTextIntoChunks_groups [of _ maxChars] splitTextIntoChunks_bound [of _ maxChars]
    alternates_elements [OF alternates_split_sentences]
  by (meson)

theorem splitTextIntoChunks_whole_elements_witness:
  "splitTextIntoChunks (js ''abcdef. gh'') 4 = [js ''abcdef'', js ''. gh''] \<and>
   split_sentences (js ''abcdef. gh'') = [js ''abcdef'', js ''.'', js '' gh''] \<and>
   (4::int) < int (length (js ''abcdef'')) \<and> js ''abcdef'' = trim (js ''abcdef'') \<and>
   list_all (\<lambda>c. \<not> isDelim c) (js ''abcdef'') \<and>
   js ''. gh'' = trim (concat [js ''.'', js '' gh'']) \<and>
   int (length (js ''. gh'')) \<le> 4"
  using splitTextIntoChunks_whole_elements [of "js ''abcdef. gh''" 4]
  by (simp add: splitTextIntoChunks_def split_sentences.simps js_def isDelim_def trim_def
      isWhiteSpace_def)

text \<open>
  Claim C8, as stated: no segment but the first begins with a sentence-ending delimiter.
  It fails: with \<open>maxChars = 14\<close> the full stop of \<open>First sentence.\<close> does not fit
  into the buffer that holds its sentence, and becomes a segment of its own.
\<close>

theorem delimiter_detached_counterexample:
  "splitTextIntoChunks (js ''First sentence.'') 14 = [js ''First sentence'', js ''.''] \<and>
   isDelim (hd (splitTextIntoChunks (js ''First sentence.'') 14 ! 1))"
  by (simp add: splitTextIntoChunks_def split_sentences.simps js_def isDelim_def trim_def
      isWhiteSpace_def)

text \<open>
  Claim C8, amended. The split puts every run of delimiter characters into the array,
  right after the stretch it ends, and loses nothing; the loop appends a run to the
  buffer that holds its sentence whenever buffer and run together do not exceed
  \<open>maxChars\<close>, so that a text that fits into \<open>maxChars\<close> is one segment, the
  trimmed text; and \<open>First sentence. Second one. Third.\<close> with \<open>maxChars = 15\<close>
  gives the three sentences, each with its full stop.
\<close>

theorem delimiter_attachment:
  "concat (split_sentences text) = text \<and> alternates (split_sentences text) \<and>
   (int (length currentChunk + length d) \<le> maxChars \<longrightarrow>
      chunk_loop maxChars (d # sentences) out currentChunk =
      chunk_loop maxChars sentences out (currentChunk @ d)) \<and>
   (int (length text) \<le> maxChars \<longrightarrow>
      splitTextIntoChunks text maxChars = (if trim text = [] then [] else [trim text])) \<and>
   splitTextIntoChunks (js ''First sentence. Second one. Third.'') 15 =
     [js ''First sentence.'', js ''Second one.'', js ''Third.'']"
proof -
  have "splitTextIntoChunks (js ''First sentence. Second one. Third.'') 15 =
     [js ''First sentence.'', js ''Second one.'', js ''Third.'']"
    by (simp add: splitTextIntoChunks_def split_sentences.simps js_def isDelim_def trim_def
        isWhiteSpace_def)
  then show ?thesis
    by (simp add: concat_split_sentences alternates_split_sentences splitTextIntoChunks_fits)
qed

theorem delimiter_attachment_witness:
  "int (length (js ''Hi'') + length (js ''.'')) \<le> 8 \<and>
   chunk_loop 8 [js ''.'', js '' Yo'', js ''.'', []] [] (js ''Hi'') =
     chunk_loop 8 [js '' Yo'', js ''.'', []] [] (js ''Hi.'') \<and>
   int (length (js ''Hi. Yo.'')) \<le> 8 \<and>
   splitTextIntoChunks (js ''Hi. Yo.'') 8 = [js ''Hi. Yo.''] \<and>
   split_sentences (js ''Hi. Yo.'') = [js ''Hi'', js ''.'', js '' Yo'', js ''.'', []]"
  using delimiter_attachment [of "js ''Hi. Yo.''" "js ''Hi''" "js ''.''" 8
      "[js '' Yo'', js ''.'', []]" "[]"]
  by (simp add: split_sentences.simps js_def isDelim_def trim_def isWhiteSpace_def)

section \<open>Properties of the playback session\<close>

subsection \<open>What the handlers leave unchanged\<close>

lemma preloadGeminiChunk_fields [simp]:
  "sessionIdRef (fst (preloadGeminiChunk r i sid s)) = sessionIdRef s"
  "currentChunkIndex (fst (preloadGeminiChunk r i sid s)) = currentChunkIndex s"
  "audioCacheRef (fst (preloadGeminiChunk r i sid s)) = audioCacheRef s"
  "pausedTimeRef (fst (preloadGeminiChunk r i sid s)) = pausedTimeRef s"
  "startTimeRef (fst (preloadGeminiChunk r i sid s)) = startTimeRef s"
  "audioContextRef (fst (preloadGeminiChunk r i sid s)) = audioContextRef s"
  "sourceNodeRef (fst (preloadGeminiChunk r i sid s)) = sourceNodeRef s"
  "isPlayingRef (fst (preloadGeminiChunk r i sid s)) = isPlayingRef s"
  "status (fst (preloadGeminiChunk r i sid s)) = status s"
  by (simp_all add: preloadGeminiChunk_def)

lemma playSequence_start_fields [simp]:
  "sessionIdRef (playSequence_start r i sid b ctx s) = sessionIdRef s"
  "currentChunkIndex (playSequence_start r i sid b ctx s) = currentChunkIndex s"
  "audioCacheRef (playSequence_start r i sid b ctx s) = audioCacheRef s"
  "pausedTimeRef (playSequence_start r i sid b ctx s) = pausedTimeRef s"
  "startTimeRef (playSequence_start r i sid b ctx s) = currentTime ctx"
  "audioContextRef (playSequence_start r i sid b ctx s) = audioContextRef s"
  "sourceNodeRef (playSequence_start r i sid b ctx s) = Some (Source b (playbackRate r) (pausedTimeRef s))"
  "status (playSequence_start r i sid b ctx s) = status s"
  by (simp_all add: playSequence_start_def Let_def)

lemma playSequence_buffered_fields [simp]:
  "sessionIdRef (playSequence_buffered r i sid ctx s) = sessionIdRef s"
  "currentChunkIndex (playSequence_buffered r i sid ctx s) = currentChunkIndex s"
  "audioCacheRef (playSequence_buffered r i sid ctx s) = audioCacheRef s"
  by (simp_all add: playSequence_buffered_def split: option.splits)

lemma playSequence_resumed_fields [simp]:
  "sessionIdRef (playSequence_resumed r i sid ctx s) = sessionIdRef s"
  "currentChunkIndex (playSequence_resumed r i sid ctx s) = currentChunkIndex s"
  "audioCacheRef (playSequence_resumed r i sid ctx s) = audioCacheRef s"
proof -
  obtain s1 b where p: "preloadGeminiChunk r i sid (s\<lparr>status := GENERATING_AUDIO\<rparr>) = (s1, b)"
    by (cases "preloadGeminiChunk r i sid (s\<lparr>status := GENERATING_AUDIO\<rparr>)")
  have s1: "sessionIdRef s1 = sessionIdRef s" "currentChunkIndex s1 = currentChunkIndex s"
    "audioCacheRef s1 = audioCacheRef s"
    using preloadGeminiChunk_fields(1-3) [of r i sid "s\<lparr>status := GENERATING_AUDIO\<rparr>"] p by simp_all
  show "sessionIdRef (playSequence_resumed r i sid ctx s) = sessionIdRef s"
    "currentChunkIndex (playSequence_resumed r i sid ctx s) = currentChunkIndex s"
    "audioCacheRef (playSequence_resumed r i sid ctx s) = audioCacheRef s"
    using p s1 by (simp_all add: playSequence_resumed_def split: option.splits bool.splits)
qed

lemma playSequence_sessionIdRef [simp]:
  "sessionIdRef (playSequence r i cs ctx s) = sessionIdRef s"
  "audioCacheRef (playSequence r i cs ctx s) = audioCacheRef s"
  by (simp_all add: playSequence_def Let_def)

lemma playSequence_currentChunkIndex:
  "\<not> timerExpired r \<Longrightarrow> i < int (length cs) \<Longrightarrow> currentChunkIndex (playSequence r i cs ctx s) = i"
  by (simp add: playSequence_def Let_def)

lemma settled_stale:
  "g \<noteq> sessionIdRef s \<Longrightarrow>
   preloadGeminiChunk_settled k g result s = Inr (s\<lparr>fetchingSetRef := fetchingSetRef s - {k}\<rparr>)"
  by (simp add: preloadGeminiChunk_settled_def try_catch_finally_def preloadGeminiChunk_body_def
      split: synth.splits)

lemma settled_sessionIdRef [simp]:
  "sessionIdRef (state_of (preloadGeminiChunk_settled k g result s)) = sessionIdRef s"
  by (simp add: preloadGeminiChunk_settled_def try_catch_finally_def preloadGeminiChunk_body_def
      state_of_def split: synth.splits option.splits)

lemma fetchSettled_stale:
  "g \<noteq> sessionIdRef s \<Longrightarrow>
   fetchSettled k g result w ctx s = s\<lparr>fetchingSetRef := fetchingSetRef s - {k}\<rparr>"
  by (auto simp: fetchSettled_def settled_stale state_of_def handleStartProcess_buffered_def
      playSequence_buffered_def Let_def split: waiter.splits)

lemma preloadGeminiChunk_eqD:
  "preloadGeminiChunk r i sid s = (s', b) \<Longrightarrow>
   sessionIdRef s' = sessionIdRef s \<and> currentChunkIndex s' = currentChunkIndex s \<and>
   audioCacheRef s' = audioCacheRef s"
  by (auto simp: preloadGeminiChunk_def split: if_splits)

lemma handleStartProcess_buffered_sessionIdRef [simp]:
  "sessionIdRef (handleStartProcess_buffered r cs sid ctx s) = sessionIdRef s"
  by (simp add: handleStartProcess_buffered_def)

lemma handleStartProcess_sessionIdRef:
  "sessionIdRef s \<le> sessionIdRef (handleStartProcess r ctx s)"
  by (auto simp: handleStartProcess_def Let_def resetAudioState_def unlockAudioContext_def
      split: prod.splits bool.splits dest!: preloadGeminiChunk_eqD)

lemma sessionIdRef_step: "sessionIdRef s \<le> sessionIdRef (step e s)"
  by (cases e)
    (simp_all add: handleStartProcess_sessionIdRef resetAudioState_def handleJumpToChunk_def
      handleFileSelected_def textExtracted_def handleFileSelected_parsed_def handleTextSubmit_def
      handleEngineChange_def handleVoiceChange_def handleReset_def handleTimerChange_def
      setPlaybackRate_def
      handlePause_def handleResume_def timerTick_def fetchSettled_def prefetchTimeout_def
      source_onended_def animateProgress_def utterance_onboundary_def utterance_onend_def
      utterance_onerror_def unlockAudioContext_def Let_def
      split: option.splits waiter.splits)

lemma sessionIdRef_run: "sessionIdRef s \<le> sessionIdRef (run es s)"
proof (induction es arbitrary: s)
  case Nil
  show ?case by simp
next
  case (Cons e es)
  have "sessionIdRef s \<le> sessionIdRef (step e s)" by (rule sessionIdRef_step)
  also have "\<dots> \<le> sessionIdRef (run es (step e s))" by (rule Cons.IH)
  finally show ?case by simp
qed

lemma playSequence_hit:
  assumes "ttsEngine r = Gemini" "\<not> timerExpired r" "index < int (length cs)"
    "audioCacheRef s index = Some buf" "\<not> suspended ctx"
  shows "playSequence r index cs ctx s =
    playSequence_start r index (sessionIdRef s) buf ctx
      (s\<lparr>currentChunkIndex := index, isPlaying := True, isPlayingRef := True,
         status := PLAYING, chunkProgressIndex := 0, audioContextRef := True\<rparr>)"
  using assms by (simp add: playSequence_def playSequence_resumed_def Let_def)

lemma demo_simps:
  "ttsEngine demo = Gemini" "\<not> timerExpired demo" "length demo_chunks = 2"
  "chunks demo = demo_chunks" "currentChunkIndex demo = 0" "sessionIdRef demo = 0"
  "timeLeft demo = None" "audioCacheRef demo = Map.empty" "fetchingSetRef demo = {}"
  "pausedTimeRef demo = 0" "playbackRate demo = 1" "extractedText demo \<noteq> []"
  by (simp_all add: demo_def initial_def timerExpired_def demo_chunks_def)

lemma demo_split: "splitTextIntoChunks (extractedText demo) 200 = chunks demo"
  by code_simp

subsection \<open>Generations\<close>

text \<open>
  Claim C1. A fetch of the segment \<open>k\<close> is in flight, started by
  \<open>preloadGeminiChunk\<close> under the generation \<open>g\<close>. Whatever happens before, a
  reset (\<open>resetAudioState\<close>) follows, and whatever happens after it: when the fetch
  settles at last, in any way and whoever awaits it, nothing changes but the set of
  fetches in flight; no clip enters the cache and \<open>currentChunkIndex\<close> stays.
\<close>

theorem generation_invalidation:
  assumes "preloadGeminiChunk r k g s0 = (s1, True)" and "sessionIdRef s0 = g"
    and "s2 = run after (resetAudioState r' (run before s1))"
  shows "fetchSettled k g result w ctx s2 = s2\<lparr>fetchingSetRef := fetchingSetRef s2 - {k}\<rparr> \<and>
    audioCacheRef (fetchSettled k g result w ctx s2) = audioCacheRef s2 \<and>
    currentChunkIndex (fetchSettled k g result w ctx s2) = currentChunkIndex s2"
proof -
  have "g = sessionIdRef s1" using assms(1,2) by (auto dest: preloadGeminiChunk_eqD)
  also have "\<dots> \<le> sessionIdRef (run before s1)" by (rule sessionIdRef_run)
  also have "\<dots> < sessionIdRef (resetAudioState r' (run before s1))"
    by (simp add: resetAudioState_def)
  also have "\<dots> \<le> sessionIdRef s2" unfolding assms(3) by (rule sessionIdRef_run)
  finally have "g \<noteq> sessionIdRef s2" by simp
  then show ?thesis by (simp add: fetchSettled_stale)
qed

theorem generation_invalidation_witness:
  "snd (preloadGeminiChunk demo 1 0 demo) \<and> sessionIdRef demo = 0 \<and>
   audioCacheRef (fetchSettled 1 0 (Resolved (Some clip)) Nobody (clock 1)
       (resetAudioState demo (fst (preloadGeminiChunk demo 1 0 demo)))) =
     audioCacheRef (resetAudioState demo (fst (preloadGeminiChunk demo 1 0 demo))) \<and>
   currentChunkIndex (fetchSettled 1 0 (Resolved (Some clip)) Nobody (clock 1)
       (resetAudioState demo (fst (preloadGeminiChunk demo 1 0 demo)))) = 0"
proof -
  have h: "snd (preloadGeminiChunk demo 1 0 demo)"
    by (simp add: preloadGeminiChunk_def demo_simps)
  have g: "sessionIdRef demo = 0" by (simp add: demo_simps)
  have "preloadGeminiChunk demo 1 0 demo = (fst (preloadGeminiChunk demo 1 0 demo), True)"
    using h by (metis prod.collapse)
  from generation_invalidation [OF this g, of _ "[]" demo "[]" "Resolved (Some clip)" Nobody "clock 1"]
  show ?thesis using h g by (simp add: resetAudioState_def)
qed

subsection \<open>The end of a segment\<close>

text \<open>
  What the callbacks \<open>onended\<close> (buffered clip) and \<open>onend\<close> (utterance) do, for a
  render \<open>r\<close> with time left on the timer: with the captured generation current and
  \<open>isPlayingRef\<close> set they call \<open>playSequence\<close> for the captured \<open>index + 1\<close>,
  which makes that the cursor, or past the last segment leaves the session idle with the
  cursor and the paused time at zero; in every other case they change nothing.
\<close>

lemma ended_callback:
  assumes "\<not> timerExpired r"
  shows
    "(isPlayingRef s \<and> sessionIdRef s = sid \<longrightarrow>
        source_onended r index cs sid ctx s =
          playSequence r (index + 1) cs ctx (s\<lparr>pausedTimeRef := 0, chunkProgressIndex := - 1\<rparr>) \<and>
        utterance_onend r index cs sid ctx s =
          playSequence r (index + 1) cs ctx (s\<lparr>chunkProgressIndex := - 1\<rparr>)) \<and>
     (isPlayingRef s \<and> sessionIdRef s = sid \<and> index + 1 < int (length cs) \<longrightarrow>
        currentChunkIndex (source_onended r index cs sid ctx s) = index + 1 \<and>
        currentChunkIndex (utterance_onend r index cs sid ctx s) = index + 1) \<and>
     (isPlayingRef s \<and> sessionIdRef s = sid \<and> index + 1 \<ge> int (length cs) \<longrightarrow>
        status (source_onended r index cs sid ctx s) = IDLE \<and>
        currentChunkIndex (source_onended r index cs sid ctx s) = 0 \<and>
        pausedTimeRef (source_onended r index cs sid ctx s) = 0 \<and>
        \<not> isPlayingRef (source_onended r index cs sid ctx s) \<and>
        status (utterance_onend r index cs sid ctx s) = IDLE \<and>
        currentChunkIndex (utterance_onend r index cs sid ctx s) = 0 \<and>
        pausedTimeRef (utterance_onend r index cs sid ctx s) = 0 \<and>
        \<not> isPlayingRef (utterance_onend r index cs sid ctx s)) \<and>
     (\<not> (isPlayingRef s \<and> sessionIdRef s = sid) \<longrightarrow>
        source_onended r index cs sid ctx s = s \<and> utterance_onend r index cs sid ctx s = s)"
proof -
  have end_of_sequence: "playSequence r i cs ctx t =
      t\<lparr>isPlaying := False, isPlayingRef := False, status := IDLE, currentChunkIndex := 0,
        pausedTimeRef := 0, chunkProgressIndex := - 1\<rparr>"
    if "i \<ge> int (length cs)" for i t
    using that assms by (simp add: playSequence_def)
  show ?thesis
    using assms
    by (auto simp: source_onended_def utterance_onend_def playSequence_currentChunkIndex
        end_of_sequence)
qed

text \<open>
  Claim C2 says that the signal acts exactly when the segment has come to its end: the
  cursor advances by one, and a signal that an explicit \<open>stop()\<close> has fired causes no
  advance. In the run \<open>stopped_then_resumed\<close> the source of the first segment is
  stopped by the pause after two seconds. After the resume the cursor is still 0, with
  \<open>isPlayingRef\<close> set again under the same generation 1; the signal of the stopped
  source then passes the check of the callback, the cursor goes to 1 and the clip of the
  second segment starts, with the paused time back at zero. When \<open>playSequence\<close> goes
  on for the resumed first segment, it starts that clip as well, from the beginning.
\<close>

theorem stopped_source_advances:
  "currentChunkIndex (run (take 5 stopped_then_resumed) demo) = 0 \<and>
   pausedTimeRef (run (take 5 stopped_then_resumed) demo) = 2 \<and>
   isPlayingRef (run (take 5 stopped_then_resumed) demo) \<and>
   sessionIdRef (run (take 5 stopped_then_resumed) demo) = 1 \<and>
   currentChunkIndex (run (take 6 stopped_then_resumed) demo) = 1 \<and>
   sourceNodeRef (run (take 6 stopped_then_resumed) demo) = Some (Source clip_1 1 0) \<and>
   currentChunkIndex (run stopped_then_resumed demo) = 1 \<and>
   sourceNodeRef (run stopped_then_resumed demo) = Some (Source clip 1 0)"
  by code_simp

subsection \<open>The cache and the fetches in flight\<close>

text \<open>
  A second call while the first is in flight, and a call for a segment that is in the
  cache, return at the guards: no call of the collaborator, no change of the state.
\<close>

lemma preloadGeminiChunk_in_flight:
  "preloadGeminiChunk r i sid s = (s1, True) \<Longrightarrow>
   synthCalls s1 = synthCalls s @ [(i, sid)] \<and> preloadGeminiChunk r' i sid' s1 = (s1, False)"
  by (auto simp: preloadGeminiChunk_def split: if_splits)

lemma preloadGeminiChunk_cached:
  "audioCacheRef s i \<noteq> None \<Longrightarrow> preloadGeminiChunk r i sid s = (s, False)"
  by (auto simp: preloadGeminiChunk_def)

text \<open>
  Claim C3 says that two overlapping calls \<open>preloadGeminiChunk(i, sid)\<close> of one
  session call the collaborator once. The run \<open>duplicate_fetch\<close> has two such calls
  for the segment 1 under the generation 3, and the collaborator is called for each:
  the fetch that the reset left behind removes, when it settles, the entry that the first
  of the two calls has made in the set of fetches in flight.
\<close>

theorem duplicate_fetch_trace:
  "synthCalls (run duplicate_fetch demo) = [(0, 1), (1, 1), (0, 3), (1, 3), (1, 3)] \<and>
   length (filter (\<lambda>c. c = (1, 3)) (synthCalls (run duplicate_fetch demo))) = 2"
  by code_simp

text \<open>
  Claim C4. \<open>preloadGeminiChunk\<close> has put the index into the set of fetches in flight
  when it suspends, and has changed nothing when it returns at a guard. However the call
  of the collaborator settles (it rejects, the decoding throws, the generation is stale,
  or the clip enters the cache), the function completes without an exception and the index
  is not in the set afterwards.
\<close>

theorem in_flight_set:
  "(preloadGeminiChunk r i sid s = (s1, True) \<longrightarrow> i \<in> fetchingSetRef s1) \<and>
   (preloadGeminiChunk r i sid s = (s1, False) \<longrightarrow> s1 = s) \<and>
   (\<exists>s2. preloadGeminiChunk_settled i sid result s' = Inr s2 \<and> i \<notin> fetchingSetRef s2)"
  by (auto simp: preloadGeminiChunk_def preloadGeminiChunk_settled_def try_catch_finally_def
      preloadGeminiChunk_body_def split: synth.splits option.splits if_splits)

theorem in_flight_set_witness:
  "snd (preloadGeminiChunk demo 1 0 demo) \<and>
   1 \<in> fetchingSetRef (fst (preloadGeminiChunk demo 1 0 demo)) \<and>
   \<not> snd (preloadGeminiChunk demo 2 0 demo) \<and>
   fst (preloadGeminiChunk demo 2 0 demo) = demo \<and>
   (\<exists>s2. preloadGeminiChunk_settled 1 0 Rejected (fst (preloadGeminiChunk demo 1 0 demo)) = Inr s2 \<and>
      1 \<notin> fetchingSetRef s2)"
proof -
  have a: "preloadGeminiChunk demo 1 0 demo = (fst (preloadGeminiChunk demo 1 0 demo), True)"
    by (simp add: preloadGeminiChunk_def demo_simps)
  have b: "preloadGeminiChunk demo 2 0 demo = (fst (preloadGeminiChunk demo 2 0 demo), False)"
    by (simp add: preloadGeminiChunk_def demo_simps)
  show ?thesis
    using a b
      in_flight_set [of demo 1 0 demo "fst (preloadGeminiChunk demo 1 0 demo)" Rejected
        "fst (preloadGeminiChunk demo 1 0 demo)"]
      in_flight_set [of demo 2 0 demo "fst (preloadGeminiChunk demo 2 0 demo)" Rejected demo]
    by (metis snd_conv)
qed

section \<open>Properties of the rounding\<close>

lemma roundTiesToEven_error: "\<bar>of_int (roundTiesToEven y) - y\<bar> \<le> 1 / 2"
  unfolding roundTiesToEven_def Let_def by (auto simp: abs_if) linarith+

lemma double_error: "\<bar>double x - x\<bar> \<le> 2 powi (exponent x - 53)"
proof -
  define q :: real where "q = 2 powi (exponent x - 52)"
  have q: "0 < q" unfolding q_def by simp
  have "double x - x = q * (of_int (roundTiesToEven (x / q)) - x / q)"
    using q unfolding double_def q_def Let_def by (simp add: algebra_simps)
  then have "\<bar>double x - x\<bar> = q * \<bar>of_int (roundTiesToEven (x / q)) - x / q\<bar>"
    using q by (simp add: abs_mult)
  also have "\<dots> \<le> q * (1 / 2)"
    using q roundTiesToEven_error [of "x / q"] by (intro mult_left_mono) auto
  also have "\<dots> = 2 powi (exponent x - 53)"
    unfolding q_def by (simp add: power_int_diff)
  finally show ?thesis .
qed

lemma halvings_spec:
  "1 \<le> x \<Longrightarrow> 2 ^ halvings n x \<le> x \<and> (x < 2 ^ Suc (halvings n x) \<or> halvings n x = n) \<and> halvings n x \<le> n"
proof (induction n arbitrary: x)
  case 0
  then show ?case by simp
next
  case (Suc n)
  show ?case
  proof (cases "x < 2")
    case True
    with Suc.prems show ?thesis by simp
  next
    case False
    then have "1 \<le> x / 2" by simp
    from Suc.IH [OF this] False show ?thesis by (auto simp: field_simps)
  qed
qed

lemma doublings_spec:
  "0 \<le> x \<Longrightarrow> x < 1 \<Longrightarrow>
   x * 2 ^ doublings n x < 2 \<and> (1 \<le> x * 2 ^ doublings n x \<or> doublings n x = n) \<and> doublings n x \<le> n"
proof (induction n arbitrary: x)
  case 0
  then show ?case by simp
next
  case (Suc n)
  show ?case
  proof (cases "x * 2 < 1")
    case True
    with Suc.prems have "0 \<le> x * 2" by simp
    from Suc.IH [OF this True] Suc.prems show ?thesis by (auto simp: field_simps)
  next
    case False
    then have "doublings n (x * 2) = 0" by (cases n) auto
    with False Suc.prems show ?thesis by (auto simp: field_simps)
  qed
qed

lemma powi_minus_nat: "(2::real) powi (- int k) = 1 / 2 ^ k" "(2::real) powi (1 - int k) = 2 / 2 ^ k"
  by (simp_all add: power_int_diff power_int_minus field_simps)

lemma has_exponent_exponent: "has_exponent x (exponent x)"
proof (cases "1 \<le> \<bar>x\<bar>")
  case True
  from halvings_spec [OF True, of 1023] show ?thesis
    using True unfolding has_exponent_def exponent_def
    by (auto simp: power_int_add)
next
  case False
  then have "0 \<le> \<bar>x\<bar>" "\<bar>x\<bar> < 1" by auto
  from doublings_spec [OF this, of 1022] show ?thesis
    using False unfolding has_exponent_def exponent_def
    by (auto simp: powi_minus_nat field_simps)
qed


lemma has_exponent_unique: "has_exponent x e \<Longrightarrow> has_exponent x e' \<Longrightarrow> e = e'"
proof (rule ccontr)
  assume a: "has_exponent x e" "has_exponent x e'" and ne: "e \<noteq> e'"
  have less: False if h: "has_exponent x a" "has_exponent x b" "a < b" for a b
  proof -
    from h have "2 powi b \<le> \<bar>x\<bar>" "\<bar>x\<bar> < 2 powi (a + 1)"
      unfolding has_exponent_def by auto
    moreover have "(2::real) powi (a + 1) \<le> 2 powi b"
      using h(3) by (intro power_int_increasing) auto
    ultimately show False by linarith
  qed
  from ne consider "e < e'" | "e' < e" by linarith
  then show False using less a by cases blast+
qed

lemma exponent_eqI: "has_exponent x e \<Longrightarrow> exponent x = e"
  using has_exponent_exponent has_exponent_unique by blast

lemma roundTiesToEven_int [simp]: "roundTiesToEven (of_int k) = k"
  by (simp add: roundTiesToEven_def)

lemma roundTiesToEven_cases: "roundTiesToEven y = \<lfloor>y\<rfloor> \<or> roundTiesToEven y = \<lfloor>y\<rfloor> + 1"
  by (simp add: roundTiesToEven_def Let_def)

lemma roundTiesToEven_ge: "of_int N \<le> y \<Longrightarrow> N \<le> roundTiesToEven y"
proof -
  assume "of_int N \<le> y"
  then have "N \<le> \<lfloor>y\<rfloor>" by (simp add: le_floor_iff)
  then show ?thesis using roundTiesToEven_cases [of y] by linarith
qed

lemma roundTiesToEven_le: "y \<le> of_int N \<Longrightarrow> roundTiesToEven y \<le> N"
proof (cases "\<lfloor>y\<rfloor> = N")
  case True
  assume "y \<le> of_int N"
  with True have "y = of_int N" by linarith
  then show ?thesis by simp
next
  case False
  assume "y \<le> of_int N"
  then have "\<lfloor>y\<rfloor> \<le> N" by (simp add: floor_le_iff)
  with False show ?thesis using roundTiesToEven_cases [of y] by linarith
qed

lemma double_eqI:
  assumes "has_exponent y e" and "y = 2 powi (e - 52) * of_int k"
  shows "double y = y"
proof -
  have e: "exponent y = e" using assms(1) by (rule exponent_eqI)
  have "y / 2 powi (e - 52) = of_int k" using assms(2) by simp
  then show ?thesis unfolding double_def Let_def e using assms(2) by simp
qed

lemma double_idem: "double (double x) = double x"
proof -
  define e where "e = exponent x"
  define q :: real where "q = 2 powi (e - 52)"
  define a where "a = x / q"
  define m where "m = roundTiesToEven a"
  define y where "y = q * of_int m"
  define B :: int where "B = 2 ^ 52"
  have y: "double x = y" unfolding double_def Let_def y_def m_def a_def q_def e_def ..
  have q: "0 < q" unfolding q_def by simp
  have B: "0 < B" unfolding B_def by simp
  have q52: "q * of_int B = 2 powi e" and q53: "q * of_int (2 * B) = 2 powi (e + 1)"
    unfolding q_def B_def by (simp_all add: power_int_diff power_int_add)
  have he: "has_exponent x e" unfolding e_def by (rule has_exponent_exponent)
  have absa: "\<bar>a\<bar> = \<bar>x\<bar> / q" unfolding a_def using q by (simp add: abs_divide)
  have absy: "\<bar>y\<bar> = q * of_int \<bar>m\<bar>" unfolding y_def using q by (simp add: abs_mult)
  have lower: "B \<le> \<bar>m\<bar>" if "2 powi e \<le> \<bar>x\<bar>"
  proof -
    from that have "q * of_int B \<le> \<bar>x\<bar>" unfolding q52 .
    then have "of_int B \<le> \<bar>a\<bar>" unfolding absa using q by (simp add: field_simps)
    then consider "of_int B \<le> a" | "a \<le> of_int (- B)" by (auto simp: abs_if split: if_splits)
    then show ?thesis
    proof cases
      case 1
      from roundTiesToEven_ge [OF this] show ?thesis unfolding m_def by linarith
    next
      case 2
      from roundTiesToEven_le [OF this] show ?thesis unfolding m_def by linarith
    qed
  qed
  have upper: "\<bar>m\<bar> \<le> 2 * B" if "\<bar>x\<bar> < 2 powi (e + 1)"
  proof -
    from that have "\<bar>x\<bar> < q * of_int (2 * B)" unfolding q53 .
    then have "\<bar>a\<bar> < of_int (2 * B)" unfolding absa using q by (simp add: field_simps)
    then have "a \<le> of_int (2 * B)" "of_int (- (2 * B)) \<le> a" by (auto simp: abs_if split: if_splits)
    from roundTiesToEven_le [OF this(1)] roundTiesToEven_ge [OF this(2)]
    show ?thesis unfolding m_def by linarith
  qed
  have range: "- 1022 \<le> e" "e \<le> 1023" using he unfolding has_exponent_def by auto
  have mono: "q * of_int i \<le> q * of_int j" if "i \<le> j" for i j :: int
    using q that by simp
  have smono: "q * of_int i < q * of_int j" if "i < j" for i j :: int
    using q that by simp
  have "double y = y"
  proof (cases "e = 1023")
    case True
    with he have "B \<le> \<bar>m\<bar>" using lower unfolding has_exponent_def by auto
    from mono [OF this] have "2 powi e \<le> \<bar>y\<bar>" unfolding absy q52 .
    then have "has_exponent y e"
      using True range unfolding has_exponent_def by simp
    then show ?thesis by (rule double_eqI) (simp add: y_def q_def)
  next
    case False
    with he have u: "\<bar>m\<bar> \<le> 2 * B" using upper unfolding has_exponent_def by auto
    show ?thesis
    proof (cases "\<bar>m\<bar> = 2 * B")
      case True
      then have ay: "\<bar>y\<bar> = 2 powi (e + 1)" unfolding absy using q53 by simp
      have "(2::real) powi (e + 1) < 2 powi (e + 1 + 1)"
        by (intro power_int_strict_increasing) auto
      then have h: "has_exponent y (e + 1)"
        using False range unfolding has_exponent_def ay by simp
      from True have "m = 2 * B \<or> m = 2 * (- B)" by (auto simp: abs_if split: if_splits)
      then have "even m" by auto
      then have "m = 2 * (m div 2)" by simp
      then have "of_int m = 2 * (of_int (m div 2) :: real)"
        by (metis of_int_mult of_int_numeral)
      then have "y = 2 powi (e + 1 - 52) * of_int (m div 2)"
        unfolding y_def q_def by (simp add: power_int_diff power_int_add)
      with h show ?thesis by (rule double_eqI)
    next
      case ne: False
      with u have "\<bar>m\<bar> < 2 * B" by simp
      from smono [OF this] have up: "\<bar>y\<bar> < 2 powi (e + 1)" unfolding absy q53 .
      have "2 powi e \<le> \<bar>y\<bar> \<or> e = - 1022"
      proof (cases "e = - 1022")
        case False
        with he have "B \<le> \<bar>m\<bar>" using lower unfolding has_exponent_def by auto
        from mono [OF this] show ?thesis unfolding absy q52 by simp
      qed simp
      with up range have "has_exponent y e" unfolding has_exponent_def by simp
      then show ?thesis by (rule double_eqI) (simp add: y_def q_def)
    qed
  qed
  then show ?thesis unfolding y .
qed

section \<open>Pause and resume\<close>

lemma playSequence_resumed_hit:
  "audioCacheRef s index = Some buf \<Longrightarrow>
   playSequence_resumed r index sid ctx s = playSequence_start r index sid buf ctx s"
  by (simp add: playSequence_resumed_def)

lemma playSequence_waits:
  assumes "ttsEngine r = Gemini" "\<not> timerExpired r" "index < int (length cs)" "suspended ctx"
  shows "playSequence r index cs ctx s =
    s\<lparr>currentChunkIndex := index, isPlaying := True, isPlayingRef := True,
      status := PLAYING, chunkProgressIndex := 0, audioContextRef := True\<rparr>"
  using assms by (simp add: playSequence_def Let_def)

text \<open>
  Claim C5, as stated: a pause after the real time \<open>t\<close> at the rate \<open>r\<close> leaves
  \<open>pausedTime = p + t * r\<close> exactly, and the position across a pause and a resume
  equals the position without them. Both fail in the arithmetic of the source. In the run
  \<open>started\<close>, \<open>paused\<close>, \<open>resumed\<close> the paused time is
  \<open>1351079888211149 / 2 ^ 53\<close>, the double that prints as 0.15000000000000002, and
  not the product of \<open>tenth\<close> and 1.5; and when the clock shows \<open>three_tenths\<close> the
  estimator of the resumed clip is one unit in the last place above the estimator of the
  clip that was never paused.
\<close>

theorem pause_offset_counterexample:
  "tenth = double (1 / 10) \<and> three_tenths = double (3 / 10) \<and>
   pausedTimeRef paused = 1351079888211149 / 2 ^ 53 \<and>
   (1351079888211149 / 2 ^ 53 :: real) \<noteq> 0 + (tenth - 0) * (3 / 2) \<and>
   elapsedAudioTime brisk (pausedTimeRef paused) (clock three_tenths) resumed =
     8106479329266893 / 2 ^ 54 \<and>
   elapsedAudioTime brisk 0 (clock three_tenths) started = 8106479329266892 / 2 ^ 54"
  by code_simp

text \<open>
  Claim C5, amended. A clip starts at the offset \<open>p = pausedTimeRef s\<close> when the clock
  of the context shows \<open>T0\<close>, at once or after the await of \<open>resume()\<close>. A pause
  when the clock shows \<open>T\<close>, at the same rate, leaves
  \<open>pausedTime = double (p + double (double (T - T0) * rate))\<close>: the formula
  \<open>elapsed * rate + offset\<close> with every operation rounded to a double, and
  \<open>double x\<close> is within half a unit in the last place of \<open>x\<close>; for \<open>p = 0\<close>
  that is \<open>double (double (T - T0) * rate)\<close>. The highlight estimator computes the same
  number for the same reading of the clock. A resume, at once or after the await of
  \<open>resume()\<close>, starts the clip at the stored offset, and the estimator goes on from it
  by the same formula. No other event comes between these steps.
\<close>

theorem pause_resume_offset:
  assumes "ttsEngine r = Gemini" and "\<not> timerExpired r" and "index < int (length cs)"
    and "audioCacheRef s index = Some buf"
    and "ttsEngine rp = Gemini" and "playbackRate rp = playbackRate r"
    and "ttsEngine rr = Gemini" and "\<not> timerExpired rr" and "currentChunkIndex rr = index"
    and "chunks rr = cs" and "playbackRate rr = playbackRate r"
    and "s1 = (if suspended c0
               then playSequence_resumed r index (sessionIdRef s) c0' (playSequence r index cs c0 s)
               else playSequence r index cs c0 s)"
    and "T0 = currentTime (if suspended c0 then c0' else c0)"
    and "s2 = handlePause rp cp s1"
    and "s3 = (if suspended cr
               then playSequence_resumed rr index (sessionIdRef s2) cr'
                      (handleResume rr confirmed cr s2)
               else handleResume rr confirmed cr s2)"
    and "T1 = currentTime (if suspended cr then cr' else cr)"
  shows "sourceNodeRef s1 = Some (Source buf (playbackRate r) (pausedTimeRef s)) \<and>
    pausedTimeRef s2 =
      double (pausedTimeRef s + double (double (currentTime cp - T0) * playbackRate r)) \<and>
    elapsedAudioTime r (pausedTimeRef s) cp s1 = pausedTimeRef s2 \<and>
    sourceNodeRef s3 = Some (Source buf (playbackRate r) (pausedTimeRef s2)) \<and>
    elapsedAudioTime rr (pausedTimeRef s2) ce s3 =
      double (double (double (currentTime ce - T1) * playbackRate r) + pausedTimeRef s2) \<and>
    (pausedTimeRef s = 0 \<longrightarrow>
      pausedTimeRef s2 = double (double (currentTime cp - T0) * playbackRate r)) \<and>
    \<bar>double x - x\<bar> \<le> 2 powi (exponent x - 53)"
proof -
  let ?s0 = "s\<lparr>currentChunkIndex := index, isPlaying := True, isPlayingRef := True,
         status := PLAYING, chunkProgressIndex := 0, audioContextRef := True\<rparr>"
  have s1: "s1 = playSequence_start r index (sessionIdRef s) buf (if suspended c0 then c0' else c0) ?s0"
    unfolding assms(12) using assms(1-4)
    by (simp add: playSequence_hit playSequence_waits playSequence_resumed_hit)
  have src1: "sourceNodeRef s1 = Some (Source buf (playbackRate r) (pausedTimeRef s))"
    and st1: "startTimeRef s1 = T0" and p1: "pausedTimeRef s1 = pausedTimeRef s"
    and ctx1: "audioContextRef s1" and c1: "audioCacheRef s1 = audioCacheRef s"
    unfolding s1 assms(13) by simp_all
  have p2: "pausedTimeRef s2 =
      double (pausedTimeRef s + double (double (currentTime cp - T0) * playbackRate r))"
    unfolding assms(14) using src1 st1 p1 ctx1 assms(5,6) by (simp add: handlePause_def Let_def)
  have c2: "audioCacheRef s2 index = Some buf"
    unfolding assms(14) using c1 assms(4) by (simp add: handlePause_def Let_def)
  have e1: "elapsedAudioTime r (pausedTimeRef s) cp s1 = pausedTimeRef s2"
    unfolding p2 using st1 by (simp add: elapsedAudioTime_def Let_def add.commute)
  let ?u = "unlockAudioContext s2"
  let ?s2 = "?u\<lparr>currentChunkIndex := index, isPlaying := True, isPlayingRef := True,
         status := PLAYING, chunkProgressIndex := 0, audioContextRef := True\<rparr>"
  have r: "handleResume rr confirmed cr s2 = playSequence rr index cs cr ?u"
    using assms(7-10) by (simp add: handleResume_def Let_def)
  have cu: "audioCacheRef ?u index = Some buf" "sessionIdRef ?u = sessionIdRef s2"
    using c2 by (simp_all add: unlockAudioContext_def)
  have s3: "s3 = playSequence_start rr index (sessionIdRef s2) buf (if suspended cr then cr' else cr) ?s2"
    unfolding assms(15) r using assms(7,8,3) cu
    by (simp add: playSequence_hit playSequence_waits playSequence_resumed_hit)
  have src3: "sourceNodeRef s3 = Some (Source buf (playbackRate r) (pausedTimeRef s2))"
    and st3: "startTimeRef s3 = T1"
    unfolding s3 assms(16) using assms(11) by (simp_all add: unlockAudioContext_def)
  have e3: "elapsedAudioTime rr (pausedTimeRef s2) ce s3 =
      double (double (double (currentTime ce - T1) * playbackRate r) + pausedTimeRef s2)"
    using st3 assms(11) by (simp add: elapsedAudioTime_def Let_def)
  have z: "pausedTimeRef s2 = double (double (currentTime cp - T0) * playbackRate r)"
    if "pausedTimeRef s = 0"
    unfolding p2 using that by (simp add: double_idem)
  show ?thesis
    using src1 p2 e1 src3 e3 z double_error by blast
qed

theorem pause_resume_offset_witness:
  "ttsEngine (demo\<lparr>playbackRate := 2\<rparr>) = Gemini \<and>
   \<not> timerExpired (demo\<lparr>playbackRate := 2\<rparr>) \<and> (0::int) < int (length demo_chunks) \<and>
   audioCacheRef (demo\<lparr>audioCacheRef := [0 \<mapsto> clip]\<rparr>) 0 = Some clip \<and>
   pausedTimeRef (handlePause (demo\<lparr>playbackRate := 2\<rparr>) (clock 14)
     (playSequence (demo\<lparr>playbackRate := 2\<rparr>) 0 demo_chunks (clock 10)
        (demo\<lparr>audioCacheRef := [0 \<mapsto> clip]\<rparr>))) = 8 \<and>
   sourceNodeRef
     (playSequence_resumed (demo\<lparr>playbackRate := 2\<rparr>) 0 0 (clock 20)
        (handleResume (demo\<lparr>playbackRate := 2\<rparr>) False \<lparr>suspended = True, currentTime = 14\<rparr>
           (handlePause (demo\<lparr>playbackRate := 2\<rparr>) (clock 14)
              (playSequence (demo\<lparr>playbackRate := 2\<rparr>) 0 demo_chunks (clock 10)
                 (demo\<lparr>audioCacheRef := [0 \<mapsto> clip]\<rparr>))))) =
     Some (Source clip 2 8)"
proof -
  let ?r = "demo\<lparr>playbackRate := 2\<rparr>"
  let ?s = "demo\<lparr>audioCacheRef := [0 \<mapsto> clip]\<rparr>"
  let ?cr = "\<lparr>suspended = True, currentTime = 14\<rparr>"
  let ?s2 = "handlePause ?r (clock 14) (playSequence ?r 0 demo_chunks (clock 10) ?s)"
  have h: "ttsEngine ?r = Gemini" "\<not> timerExpired ?r" "(0::int) < int (length demo_chunks)"
    "audioCacheRef ?s 0 = Some clip" "playbackRate ?r = playbackRate ?r"
    "currentChunkIndex ?r = 0" "chunks ?r = demo_chunks"
    by (simp_all add: demo_simps timerExpired_def)
  have g: "sessionIdRef ?s2 = 0" "pausedTimeRef ?s = 0" "playbackRate ?r = 2"
    "currentTime (clock 14) = 14" "currentTime (clock 10) = 10"
    by (simp_all add: handlePause_def Let_def demo_simps clock_def)
  have 1: "playSequence ?r 0 demo_chunks (clock 10) ?s =
      (if suspended (clock 10)
       then playSequence_resumed ?r 0 (sessionIdRef ?s) (clock 10)
              (playSequence ?r 0 demo_chunks (clock 10) ?s)
       else playSequence ?r 0 demo_chunks (clock 10) ?s)"
    and 2: "currentTime (clock 10) = currentTime (if suspended (clock 10) then clock 10 else clock 10)"
    and 3: "playSequence_resumed ?r 0 0 (clock 20) (handleResume ?r False ?cr ?s2) =
      (if suspended ?cr
       then playSequence_resumed ?r 0 (sessionIdRef ?s2) (clock 20) (handleResume ?r False ?cr ?s2)
       else handleResume ?r False ?cr ?s2)"
    and 4: "currentTime (clock 20) = currentTime (if suspended ?cr then clock 20 else ?cr)"
    using g(1) by (simp_all add: clock_def)
  note t = pause_resume_offset [OF h(1-4) h(1) h(5) h(1,2) h(6,7) h(5) 1 2 refl 3 4,
      of "clock 21" 0]
  have d: "double (0 + double (double (14 - 10) * 2)) = 8" by code_simp
  have p2: "pausedTimeRef ?s2 = 8"
    using t [THEN conjunct2, THEN conjunct1] unfolding g d .
  have s3: "sourceNodeRef (playSequence_resumed ?r 0 0 (clock 20) (handleResume ?r False ?cr ?s2)) =
      Some (Source clip 2 8)"
    using t [THEN conjunct2, THEN conjunct2, THEN conjunct2, THEN conjunct1] unfolding g(3) p2 .
  show ?thesis
    using h(1-4) p2 s3 by blast
qed

section \<open>More properties of the playback session\<close>

subsection \<open>Errors of the utterance backend\<close>

text \<open>
  Claim C9, as stated: every error but \<open>interrupted\<close> and \<open>canceled\<close> takes the
  session to the error state. It fails: the first segment is spoken by the browser, the
  engine reports \<open>synthesis-failed\<close>, and the status is still \<open>PLAYING\<close>.
\<close>

theorem utterance_error_counterexample:
  "status (utterance_onerror ''synthesis-failed''
     (playSequence (demo\<lparr>ttsEngine := Browser\<rparr>) 0 demo_chunks (clock 0)
        (demo\<lparr>ttsEngine := Browser\<rparr>))) = PLAYING \<and>
   status (utterance_onerror ''synthesis-failed''
     (playSequence (demo\<lparr>ttsEngine := Browser\<rparr>) 0 demo_chunks (clock 0)
        (demo\<lparr>ttsEngine := Browser\<rparr>))) \<noteq> ERROR"
  by (simp add: utterance_onerror_def playSequence_def timerExpired_def demo_simps Let_def)

text \<open>
  Claim C9, amended. On \<open>interrupted\<close> and \<open>canceled\<close> the handler returns and no
  field changes. On every other error it clears \<open>isPlaying\<close> and \<open>isPlayingRef\<close>
  and changes nothing else: the status and the error message stay as they were.
\<close>

theorem utterance_error:
  "(error = ''interrupted'' \<or> error = ''canceled'' \<longrightarrow> utterance_onerror error s = s) \<and>
   (error \<noteq> ''interrupted'' \<and> error \<noteq> ''canceled'' \<longrightarrow>
      utterance_onerror error s = s\<lparr>isPlaying := False, isPlayingRef := False\<rparr> \<and>
      \<not> isPlayingRef (utterance_onerror error s) \<and> \<not> isPlaying (utterance_onerror error s) \<and>
      status (utterance_onerror error s) = status s \<and>
      errorMsg (utterance_onerror error s) = errorMsg s)"
  by (simp add: utterance_onerror_def)

theorem utterance_error_witness:
  "utterance_onerror ''canceled'' demo = demo \<and>
   ''network'' \<noteq> ''interrupted'' \<and> ''network'' \<noteq> ''canceled'' \<and>
   \<not> isPlayingRef (utterance_onerror ''network'' (demo\<lparr>isPlayingRef := True, status := PLAYING\<rparr>)) \<and>
   status (utterance_onerror ''network'' (demo\<lparr>isPlayingRef := True, status := PLAYING\<rparr>)) = PLAYING"
  using utterance_error [of "''canceled''" demo]
    utterance_error [of "''network''" "demo\<lparr>isPlayingRef := True, status := PLAYING\<rparr>"]
  by simp

subsection \<open>Text of white space\<close>

text \<open>
  Claim C10. A text of white space only, of any length, has no segments, whatever
  \<open>maxChars\<close>. \<open>handleStartProcess\<close> returns at once on the empty text; on any
  other text of white space it unlocks the audio context (buffered backend), resets the
  audio state and stores the empty list of segments, and that is all: no fetch, no
  playback, no change of the status.
\<close>

theorem whitespace_only:
  assumes "\<forall>c\<in>set (extractedText r). isWhiteSpace c"
  shows "splitTextIntoChunks (extractedText r) maxChars = [] \<and>
    handleStartProcess r ctx s =
      (if extractedText r = [] then s
       else (resetAudioState r (if ttsEngine r = Gemini then unlockAudioContext s else s))
              \<lparr>chunks := []\<rparr>)"
proof -
  have e: "splitTextIntoChunks (extractedText r) m = []" for m
    using assms by (rule splitTextIntoChunks_whitespace)
  have t: "t\<lparr>timeLeft := timeLeft t\<rparr> = t" for t :: app by simp
  show ?thesis
    using e by (simp add: handleStartProcess_def Let_def resetAudioState_def)
qed

theorem whitespace_only_witness:
  "(\<exists>c. c \<in> set (js ''  '')) \<and> splitTextIntoChunks (js ''  '') 200 = [] \<and>
   chunks (handleStartProcess (demo\<lparr>extractedText := js ''  ''\<rparr>) (clock 0) demo) = [] \<and>
   sessionIdRef (handleStartProcess (demo\<lparr>extractedText := js ''  ''\<rparr>) (clock 0) demo) = 1 \<and>
   synthCalls (handleStartProcess (demo\<lparr>extractedText := js ''  ''\<rparr>) (clock 0) demo) = [] \<and>
   status (handleStartProcess (demo\<lparr>extractedText := js ''  ''\<rparr>) (clock 0) demo) = IDLE"
proof -
  have h: "\<forall>c\<in>set (extractedText (demo\<lparr>extractedText := js ''  ''\<rparr>)). isWhiteSpace c"
    by (simp add: js_def isWhiteSpace_def)
  show ?thesis
    using whitespace_only [OF h, of 200 "clock 0" demo]
    by (simp add: js_def resetAudioState_def unlockAudioContext_def demo_def initial_def)
qed


end
